theory Spec2Isabelle
  imports Main "HOL-Library.Word"
begin

unbundle bit_operations_syntax

section \<open>Bytes, errors and connections\<close>

text \<open>
  A Python \<open>bytes\<close> value is a list of 8-bit words. A Python \<open>str\<close> is represented by its
  UTF-8 encoding, so \<open>str.encode()\<close> is the identity and \<open>bytes.decode()\<close> is a validity
  check. Python integers are unbounded: they are \<open>int\<close>.
\<close>

type_synonym byte = "8 word"
type_synonym bytes = "byte list"

text \<open>Every exception the modelled code raises or lets through, as a value.\<close>

datatype error =
    StructError
  | MagicMismatch
  | IncompleteReadError
  | ConnectionResetError
  | ConnectionRefusedError
  | UnicodeDecodeError
  | ValueError
  | ExpectedCNXN bytes
  | Failed bytes
  | FailedToOpen bytes

text \<open>
  One TCP connection, as the pair (reader, writer) of asyncio streams: \<open>inp\<close> are the bytes
  the other side delivers before its end of file and that have not been read yet,
  \<open>out\<close> the chunks handed to \<open>writer.write\<close> (one chunk per call), \<open>closing\<close> whether
  \<open>writer.close()\<close> was called, and \<open>alive\<close> whether the connection has not been reset by
  the other side.
\<close>

record conn =
  inp :: bytes
  out :: "bytes list"
  closing :: bool
  alive :: bool

definition new_conn :: "bytes \<Rightarrow> conn" where
  "new_conn bs = \<lparr>inp = bs, out = [], closing = False, alive = True\<rparr>"

text \<open>
  \<open>reader.readexactly(n)\<close>: \<open>ValueError\<close> for a negative size, \<open>ConnectionResetError\<close> on
  a reset connection, \<open>IncompleteReadError\<close> when the stream ends first.
\<close>

definition readexactly :: "int \<Rightarrow> conn \<Rightarrow> (error + bytes) \<times> conn" where
  "readexactly n c =
     (if n < 0 then (Inl ValueError, c)
      else if \<not> alive c then (Inl ConnectionResetError, c)
      else if int (length (inp c)) < n then (Inl IncompleteReadError, c\<lparr>inp := []\<rparr>)
      else (Inr (take (nat n) (inp c)), c\<lparr>inp := drop (nat n) (inp c)\<rparr>))"

text \<open>\<open>writer.write(data)\<close> only buffers; it does not raise.\<close>

definition write_conn :: "bytes \<Rightarrow> conn \<Rightarrow> conn" where
  "write_conn bs c = c\<lparr>out := out c @ [bs]\<rparr>"

text \<open>\<open>await writer.drain()\<close> raises once the connection is lost or closed.\<close>

definition drain :: "conn \<Rightarrow> error option" where
  "drain c = (if alive c \<and> \<not> closing c then None else Some ConnectionResetError)"

definition close_conn :: "conn \<Rightarrow> conn" where
  "close_conn c = c\<lparr>closing := True\<rparr>"

section \<open>Frame codec\<close>

text \<open>\<open>struct.pack("<I", x)\<close>: four little-endian bytes, \<open>struct.error\<close> out of range.\<close>

definition pack_I :: "int \<Rightarrow> error + bytes" where
  "pack_I x =
     (if 0 \<le> x \<and> x < 2 ^ 32
      then Inr [word_of_int (x mod 256), word_of_int (x div 256 mod 256),
                word_of_int (x div 65536 mod 256), word_of_int (x div 16777216 mod 256)]
      else Inl StructError)"

text \<open>\<open>struct.unpack("<I", b)\<close>: \<open>struct.error\<close> unless \<open>b\<close> has exactly four bytes.\<close>

fun unpack_I :: "bytes \<Rightarrow> error + int" where
  "unpack_I [b0, b1, b2, b3] =
     Inr (uint b0 + 256 * uint b1 + 65536 * uint b2 + 16777216 * uint b3)"
| "unpack_I _ = Inl StructError"

text \<open>\<open>struct.pack\<close> of several \<open>I\<close> fields: the first field out of range raises.\<close>

fun pack_Is :: "int list \<Rightarrow> error + bytes" where
  "pack_Is [] = Inr []"
| "pack_Is (x # xs) =
     (case pack_I x of Inl e \<Rightarrow> Inl e
      | Inr b \<Rightarrow> (case pack_Is xs of Inl e \<Rightarrow> Inl e | Inr bs \<Rightarrow> Inr (b @ bs)))"

text \<open>
  \<open>binascii.crc32\<close>: the IEEE CRC-32 (reflected polynomial \<open>0xEDB88320\<close>, initial value
  and final XOR \<open>0xFFFFFFFF\<close>), bit by bit.
\<close>

definition crc_bit :: "32 word \<Rightarrow> 32 word" where
  "crc_bit c = (if bit c 0 then drop_bit 1 c XOR 0xEDB88320 else drop_bit 1 c)"

definition crc_byte :: "32 word \<Rightarrow> byte \<Rightarrow> 32 word" where
  "crc_byte c b = (crc_bit ^^ 8) (c XOR ucast b)"

definition crc32 :: "bytes \<Rightarrow> int" where
  "crc32 data = uint (foldl crc_byte 0xFFFFFFFF data XOR 0xFFFFFFFF)"

text \<open>
  The bytes \<open>send_cmd\<close> hands to the writer, \<open>header + data\<close>. The \<open>str\<close> branch of
  \<open>send_cmd\<close> is the identity in this representation of strings.
\<close>

definition frame_bytes :: "bytes \<Rightarrow> int \<Rightarrow> int \<Rightarrow> bytes \<Rightarrow> error + bytes" where
  "frame_bytes cmd arg0 arg1 data =
     (case unpack_I cmd of Inl e \<Rightarrow> Inl e
      | Inr cmd_id \<Rightarrow>
         (case pack_Is [cmd_id, arg0, arg1, int (length data), crc32 data,
                        cmd_id XOR 0xFFFFFFFF] of
            Inl e \<Rightarrow> Inl e
          | Inr header \<Rightarrow> Inr (header @ data)))"

text \<open>
  \<open>send_cmd(writer, cmd, arg0, arg1, data)\<close>: the error, if any, and the writer afterwards.
  A failing \<open>drain\<close> raises after the frame was handed to the writer.
\<close>

definition send_cmd :: "conn \<Rightarrow> bytes \<Rightarrow> int \<Rightarrow> int \<Rightarrow> bytes \<Rightarrow> error option \<times> conn" where
  "send_cmd writer cmd arg0 arg1 data =
     (case frame_bytes cmd arg0 arg1 data of
        Inl e \<Rightarrow> (Some e, writer)
      | Inr bs \<Rightarrow> (let w = write_conn bs writer in (drain w, w)))"

text \<open>The six header fields of \<open>struct.unpack("<IIIIII", header)\<close>, for a 24-byte header.\<close>

definition unpack_6I :: "bytes \<Rightarrow> error + int list" where
  "unpack_6I header =
     (if length header = 24
      then (case (unpack_I (take 4 header), unpack_I (take 4 (drop 4 header)),
                  unpack_I (take 4 (drop 8 header)), unpack_I (take 4 (drop 12 header)),
                  unpack_I (take 4 (drop 16 header)), unpack_I (take 4 (drop 20 header))) of
              (Inr a, Inr b, Inr c, Inr d, Inr e, Inr f) \<Rightarrow> Inr [a, b, c, d, e, f]
            | _ \<Rightarrow> Inl StructError)
      else Inl StructError)"

text \<open>\<open>recv_cmd(reader)\<close>: the decoded \<open>(cmd, arg0, arg1, data)\<close> and the reader afterwards.\<close>

definition recv_cmd :: "conn \<Rightarrow> (error + bytes \<times> int \<times> int \<times> bytes) \<times> conn" where
  "recv_cmd reader =
     (case readexactly 24 reader of
        (Inl e, r) \<Rightarrow> (Inl e, r)
      | (Inr header, r) \<Rightarrow>
         (case unpack_6I header of
            Inr [cmd_id, arg0, arg1, data_len, crc, magic] \<Rightarrow>
              if cmd_id \<noteq> magic XOR 0xFFFFFFFF then (Inl MagicMismatch, r)
              else (case readexactly data_len r of
                      (Inl e, r') \<Rightarrow> (Inl e, r')
                    | (Inr data, r') \<Rightarrow> (Inr (take 4 header, arg0, arg1, data), r'))
          | _ \<Rightarrow> (Inl StructError, r)))"

text \<open>\<open>self.max_data_len\<close> and \<open>self.protocol_version\<close> of \<open>AdbDeviceProxy\<close>.\<close>

definition max_data_len :: int where
  "max_data_len = 256 * 1024"

definition protocol_version :: int where
  "protocol_version = 0x01000000"

section \<open>Strings\<close>

text \<open>An ASCII string literal of the source, as bytes.\<close>

definition ascii :: "string \<Rightarrow> bytes" where
  "ascii s = map (\<lambda>c. of_nat (of_char c)) s"

definition continuation :: "byte \<Rightarrow> bool" where
  "continuation b = (0x80 \<le> b \<and> b \<le> 0xBF)"

text \<open>
  The byte sequences Python's strict UTF-8 decoder accepts: no overlong forms, no
  surrogates, nothing above U+10FFFF.
\<close>

fun valid_utf8 :: "bytes \<Rightarrow> bool" where
  "valid_utf8 [] = True"
| "valid_utf8 (b # bs) =
     (if b \<le> 0x7F then valid_utf8 bs
      else if 0xC2 \<le> b \<and> b \<le> 0xDF then
        (case bs of c1 # r \<Rightarrow> continuation c1 \<and> valid_utf8 r | _ \<Rightarrow> False)
      else if 0xE0 \<le> b \<and> b \<le> 0xEF then
        (case bs of
           c1 # c2 # r \<Rightarrow>
             (if b = 0xE0 then 0xA0 \<le> c1 \<and> c1 \<le> 0xBF
              else if b = 0xED then 0x80 \<le> c1 \<and> c1 \<le> 0x9F
              else continuation c1)
             \<and> continuation c2 \<and> valid_utf8 r
         | _ \<Rightarrow> False)
      else if 0xF0 \<le> b \<and> b \<le> 0xF4 then
        (case bs of
           c1 # c2 # c3 # r \<Rightarrow>
             (if b = 0xF0 then 0x90 \<le> c1 \<and> c1 \<le> 0xBF
              else if b = 0xF4 then 0x80 \<le> c1 \<and> c1 \<le> 0x8F
              else continuation c1)
             \<and> continuation c2 \<and> continuation c3 \<and> valid_utf8 r
         | _ \<Rightarrow> False)
      else False)"

text \<open>\<open>b.decode()\<close>: the string (as its UTF-8 bytes), or \<open>UnicodeDecodeError\<close>.\<close>

definition decode :: "bytes \<Rightarrow> error + bytes" where
  "decode b = (if valid_utf8 b then Inr b else Inl UnicodeDecodeError)"

text \<open>\<open>data.rstrip(b"\0")\<close>.\<close>

definition rstrip_nul :: "bytes \<Rightarrow> bytes" where
  "rstrip_nul data = rev (dropWhile (\<lambda>b. b = 0) (rev data))"

text \<open>\<open>s.startswith(p)\<close>.\<close>

definition startswith :: "bytes \<Rightarrow> bytes \<Rightarrow> bool" where
  "startswith s p = (take (length p) s = p)"

text \<open>The format \<open>f"{n:04x}"\<close>: lowercase hexadecimal, zero-padded to at least four digits.\<close>

definition hex_digit :: "nat \<Rightarrow> byte" where
  "hex_digit d = (if d < 10 then of_nat (48 + d) else of_nat (87 + d))"

function hex_of :: "nat \<Rightarrow> bytes" where
  "hex_of n = (if n < 16 then [hex_digit n] else hex_of (n div 16) @ [hex_digit (n mod 16)])"
  by pat_completeness auto
termination
  by (relation "measure id") auto

definition format_04x :: "nat \<Rightarrow> bytes" where
  "format_04x n = replicate (4 - length (hex_of n)) 0x30 @ hex_of n"

text \<open>
  \<open>int(b, 16)\<close> on bytes: ASCII whitespace around, an optional sign, an optional
  \<open>0x\<close>/\<open>0X\<close> prefix, then hexadecimal digits that single underscores may separate;
  anything else is a \<open>ValueError\<close>.
\<close>

definition is_space :: "byte \<Rightarrow> bool" where
  "is_space b = (b = 0x20 \<or> (0x09 \<le> b \<and> b \<le> 0x0D))"

definition hex_val :: "byte \<Rightarrow> int option" where
  "hex_val b =
     (if 0x30 \<le> b \<and> b \<le> 0x39 then Some (uint b - 48)
      else if 0x61 \<le> b \<and> b \<le> 0x66 then Some (uint b - 87)
      else if 0x41 \<le> b \<and> b \<le> 0x46 then Some (uint b - 55)
      else None)"

fun hex_digits :: "int \<Rightarrow> bytes \<Rightarrow> int option" where
  "hex_digits acc [] = Some acc"
| "hex_digits acc (b # bs) =
     (if b = 0x5F then
        (case bs of
           [] \<Rightarrow> None
         | c # cs \<Rightarrow> (case hex_val c of None \<Rightarrow> None | Some v \<Rightarrow> hex_digits (16 * acc + v) cs))
      else (case hex_val b of None \<Rightarrow> None | Some v \<Rightarrow> hex_digits (16 * acc + v) bs))"

definition int16 :: "bytes \<Rightarrow> error + int" where
  "int16 b =
     (let s = rev (dropWhile is_space (rev (dropWhile is_space b)));
          neg = (case s of c # _ \<Rightarrow> c = 0x2D | [] \<Rightarrow> False);
          s1 = (case s of c # r \<Rightarrow> if c = 0x2D \<or> c = 0x2B then r else s | [] \<Rightarrow> s);
          s2 = (case s1 of
                  z # x # r \<Rightarrow>
                    if z = 0x30 \<and> (x = 0x78 \<or> x = 0x58)
                    then (case r of u # r' \<Rightarrow> if u = 0x5F then r' else r | [] \<Rightarrow> r)
                    else s1
                | _ \<Rightarrow> s1)
      in case s2 of
           [] \<Rightarrow> Inl ValueError
         | d # r \<Rightarrow>
             (case hex_val d of
                None \<Rightarrow> Inl ValueError
              | Some v \<Rightarrow>
                  (case hex_digits v r of
                     None \<Rightarrow> Inl ValueError
                   | Some n \<Rightarrow> Inr (if neg then - n else n))))"

section \<open>Host-ADB service client\<close>

text \<open>
  The \<open>try\<close> block of \<open>open_client_stream\<close> after a status other than \<open>OKAY\<close>: it reads
  the length and the message, closes the writer and raises \<open>Failed\<close>; every path through
  it ends in an exception.
\<close>

definition read_failure :: "conn \<Rightarrow> error \<times> conn" where
  "read_failure c =
     (case readexactly 4 c of
        (Inl e, c1) \<Rightarrow> (e, c1)
      | (Inr len_b, c1) \<Rightarrow>
          (case int16 len_b of
             Inl e \<Rightarrow> (e, c1)
           | Inr n \<Rightarrow>
               (case readexactly n c1 of
                  (Inl e, c2) \<Rightarrow> (e, c2)
                | (Inr err, c2) \<Rightarrow>
                    (case decode err of
                       Inl e \<Rightarrow> (e, c2)
                     | Inr msg \<Rightarrow> (Failed msg, close_conn c2)))))"

text \<open>
  One iteration of the \<open>for cmd in [...]\<close> loop. The bare \<open>except\<close> catches whatever the
  \<open>try\<close> block raised, closes the writer and raises \<open>FailedToOpen destination\<close> instead.
\<close>

definition request :: "bytes \<Rightarrow> bytes \<Rightarrow> conn \<Rightarrow> error option \<times> conn" where
  "request destination cmd_b c =
     (let c1 = write_conn (format_04x (length cmd_b) @ cmd_b) c in
      case drain c1 of
        Some e \<Rightarrow> (Some e, c1)
      | None \<Rightarrow>
          (case readexactly 4 c1 of
             (Inl e, c2) \<Rightarrow> (Some e, c2)
           | (Inr status, c2) \<Rightarrow>
               if status \<noteq> ascii ''OKAY''
               then (case read_failure c2 of
                       (e, c3) \<Rightarrow> (Some (FailedToOpen destination), close_conn c3))
               else (None, c2)))"

text \<open>
  \<open>open_client_stream\<close> on the connection \<open>asyncio.open_connection\<close> returned: the two
  requests in order, stopping at the first exception.
\<close>

definition requests :: "bytes \<Rightarrow> bytes \<Rightarrow> conn \<Rightarrow> error option \<times> conn" where
  "requests device_id destination c =
     (case request destination (ascii ''host:transport:'' @ device_id) c of
        (Some e, c1) \<Rightarrow> (Some e, c1)
      | (None, c1) \<Rightarrow> request destination destination c1)"

text \<open>
  \<open>open_client_stream(adb_addr, device_id, destination)\<close>. The host ADB server is the
  environment: \<open>None\<close> when \<open>asyncio.open_connection\<close> is refused, otherwise the fresh
  connection with everything the server is going to send on it.
\<close>

definition open_client_stream :: "conn option \<Rightarrow> bytes \<Rightarrow> bytes \<Rightarrow> error + conn" where
  "open_client_stream host device_id destination =
     (case host of
        None \<Rightarrow> Inl ConnectionRefusedError
      | Some c \<Rightarrow>
          (case requests device_id destination c of
             (Some e, c1) \<Rightarrow> Inl e
           | (None, c1) \<Rightarrow> Inr c1))"

section \<open>Streams\<close>

text \<open>
  Where the task running \<open>ProxyChannel.sink\<close> is: about to evaluate the condition of its
  loop, suspended in \<open>ready_to_send.acquire()\<close>, suspended in \<open>reader.read\<close> (it holds the
  unit it acquired), suspended in \<open>asyncio.sleep(0.1)\<close>, or finished (returned or
  cancelled).
\<close>

datatype task = LoopHead | Acquire | Reading | Sleeping | Done

text \<open>
  A \<open>ProxyChannel\<close> object. \<open>sock\<close> is the connection to the host ADB service whose two
  halves are \<open>self.reader\<close> and \<open>self.writer\<close>; \<open>ready_to_send\<close> is the value of the
  semaphore. \<open>backlog\<close> is the write buffer of the transport of \<open>self.writer\<close>: \<open>None\<close>
  while the service takes the bytes written to it, so that none stay there, and \<open>Some n\<close>
  once it has stopped taking them, \<open>n\<close> being the number of bytes the buffer holds.
\<close>

record channel =
  name :: bytes
  local_id :: int
  remote_id :: int
  sock :: conn
  closed :: bool
  ready_to_send :: nat
  sink_task :: task
  backlog :: "nat option"

definition buffered :: "channel \<Rightarrow> nat" where
  "buffered ch = (case backlog ch of None \<Rightarrow> 0 | Some n \<Rightarrow> n)"

text \<open>\<open>ready_to_send.release()\<close>.\<close>

definition release :: "channel \<Rightarrow> channel" where
  "release ch = ch\<lparr>ready_to_send := Suc (ready_to_send ch)\<rparr>"

text \<open>
  \<open>ProxyChannel.__init__\<close>: the semaphore starts at 0, the sink task is created, and
  \<open>self.ready()\<close> releases one unit. The service has answered both requests of
  \<open>open_client_stream\<close>, so it has taken them.
\<close>

definition ProxyChannel :: "bytes \<Rightarrow> int \<Rightarrow> int \<Rightarrow> conn \<Rightarrow> channel" where
  "ProxyChannel nm lid rid c =
     release \<lparr>name = nm, local_id = lid, remote_id = rid, sock = c, closed = False,
              ready_to_send = 0, sink_task = LoopHead, backlog = None\<rparr>"

section \<open>Device proxy\<close>

text \<open>
  Where \<open>handle_connection\<close> is: in the handshake of \<open>run\<close>; in its loop, at \<open>recv_cmd\<close>;
  in \<open>ProxyChannel.write\<close> of the channel at the given position, suspended in
  \<open>await self.writer.drain()\<close>; in \<open>ProxyChannel.close\<close> of the channel at the given
  position, suspended in \<open>await self.writer.wait_closed()\<close>, the key that the \<open>CLSE\<close>
  branch deletes afterwards given when the call came from there; or returned.
\<close>

datatype stage = Handshake | Dispatching | Draining nat | Closing nat "int option" | Returned

text \<open>
  An \<open>AdbDeviceProxy\<close> with the objects it shares with its tasks. \<open>peer\<close> is the
  connection of the client (\<open>self.reader\<close>, \<open>self.writer\<close>). \<open>chans\<close> holds every
  \<open>ProxyChannel\<close> object created so far, in creation order: a channel outlives its table
  entry, since its sink task keeps a reference. \<open>streams\<close> is the dictionary
  \<open>self.streams\<close>, from a remote id to the position of the channel object in \<open>chans\<close>.
  \<open>rcvd\<close> is the history of the frames \<open>recv_cmd\<close> has returned; no operation reads it.
\<close>

record proxy =
  peer :: conn
  device_id :: bytes
  streams :: "int \<rightharpoonup> nat"
  next_remote_id :: int
  chans :: "channel list"
  rcvd :: "(bytes \<times> int \<times> int \<times> bytes) list"
  stage :: stage

text \<open>\<open>AdbDeviceProxy.__init__\<close>, on a client connection that will deliver \<open>input\<close>.\<close>

definition AdbDeviceProxy :: "bytes \<Rightarrow> bytes \<Rightarrow> proxy" where
  "AdbDeviceProxy input dev =
     \<lparr>peer = new_conn input, device_id = dev, streams = Map.empty, next_remote_id = 1,
      chans = [], rcvd = [], stage = Handshake\<rparr>"

definition device_name :: "proxy \<Rightarrow> bytes" where
  "device_name p = ascii ''proxy_'' @ device_id p"

text \<open>\<open>AdbDeviceProxy.send_cmd\<close>.\<close>

definition proxy_send_cmd :: "bytes \<Rightarrow> int \<Rightarrow> int \<Rightarrow> bytes \<Rightarrow> proxy \<Rightarrow> error option \<times> proxy" where
  "proxy_send_cmd cmd arg0 arg1 data p =
     (case send_cmd (peer p) cmd arg0 arg1 data of (e, w) \<Rightarrow> (e, p\<lparr>peer := w\<rparr>))"

text \<open>
  \<open>await self.writer.wait_closed()\<close> waits until the transport has reported the connection
  lost, which it does once the connection is reset, and after \<open>writer.close()\<close> as soon as
  its write buffer is empty: \<open>None\<close> while the wait lasts, otherwise what it raises, if
  anything.
\<close>

definition wait_closed :: "channel \<Rightarrow> error option option" where
  "wait_closed ch =
     (if \<not> alive (sock ch) then Some (Some ConnectionResetError)
      else if 0 < buffered ch then None
      else Some None)"

text \<open>
  \<open>ProxyChannel.close\<close> of the channel at position \<open>i\<close>, called on a channel that is not
  closed, up to \<open>await self.writer.wait_closed()\<close>. Cancelling the sink task ends it (when
  the task itself is the caller it ends after this call).
\<close>

definition close_begin :: "nat \<Rightarrow> proxy \<Rightarrow> proxy" where
  "close_begin i p =
     (let ch = chans p ! i;
          ch1 = release (ch\<lparr>closed := True\<rparr>);
          ch2 = (if sink_task ch1 \<noteq> Done then ch1\<lparr>sink_task := Done\<rparr> else ch1)
      in p\<lparr>chans := (chans p)[i := ch2\<lparr>sock := close_conn (sock ch2)\<rparr>]\<rparr>)"

text \<open>
  The rest of \<open>ProxyChannel.close\<close>, once the wait is over: the bare \<open>except\<close> has dropped
  what \<open>wait_closed\<close> raised; \<open>send_cmd\<close> of \<open>CLSE\<close> is outside the \<open>try\<close>.
\<close>

definition close_end :: "nat \<Rightarrow> proxy \<Rightarrow> error option \<times> proxy" where
  "close_end i p =
     proxy_send_cmd (ascii ''CLSE'') (remote_id (chans p ! i)) (local_id (chans p ! i)) [] p"

text \<open>
  \<open>ProxyChannel.close\<close> from call to return, for a caller that \<open>wait_closed\<close> does not keep
  waiting. That is the sink task of the channel, in its \<open>finally\<close> block: \<open>cancel()\<close> has
  marked the running task, so the future it goes on to await is cancelled instead, and the
  bare \<open>except\<close> catches the \<open>CancelledError\<close>.
\<close>

definition close :: "nat \<Rightarrow> proxy \<Rightarrow> error option \<times> proxy" where
  "close i p =
     (if \<not> closed (chans p ! i) then close_end i (close_begin i p) else (None, p))"

text \<open>
  What \<open>run\<close> does when \<open>close\<close> has returned: \<open>del self.streams[remote_id]\<close> in the \<open>CLSE\<close>
  branch, nothing after \<open>write\<close>.
\<close>

definition after_close :: "int option \<Rightarrow> proxy \<Rightarrow> proxy" where
  "after_close d p = (case d of Some rid \<Rightarrow> p\<lparr>streams := (streams p)(rid := None)\<rparr> | None \<Rightarrow> p)"

text \<open>
  \<open>await channel.close()\<close> in the task of \<open>run\<close>: on a closed channel the call returns at
  once; otherwise the task is suspended in \<open>wait_closed\<close>, and \<open>handle_connection\<close> below
  resumes it.
\<close>

definition close_await :: "int option \<Rightarrow> nat \<Rightarrow> proxy \<Rightarrow> proxy" where
  "close_await d i p =
     (if closed (chans p ! i) then after_close d p
      else (close_begin i p)\<lparr>stage := Closing i d\<rparr>)"

text \<open>\<open>ProxyChannel.ready\<close>.\<close>

definition ready :: "nat \<Rightarrow> proxy \<Rightarrow> proxy" where
  "ready i p = p\<lparr>chans := (chans p)[i := release (chans p ! i)]\<rparr>"

text \<open>
  \<open>self.writer.write(data)\<close> on the service connection: the transport sends at once what the
  service takes and keeps in its buffer what it does not; it drops the data when the
  connection is lost, or closed with nothing left to send.
\<close>

definition sock_write :: "bytes \<Rightarrow> channel \<Rightarrow> channel" where
  "sock_write data ch =
     ch\<lparr>sock := write_conn data (sock ch),
        backlog := (case backlog ch of
                      None \<Rightarrow> None
                    | Some n \<Rightarrow>
                        if alive (sock ch) \<and> (closing (sock ch) \<longrightarrow> 0 < n)
                        then Some (n + length data) else Some n)\<rparr>"

text \<open>The high-water mark of a transport's write buffer, above which writing is paused.\<close>

definition high_water :: nat where
  "high_water = 64 * 1024"

text \<open>
  \<open>await self.writer.drain()\<close> on the service connection when it is called: with bytes
  buffered on a live connection it returns, or waits (\<open>None\<close>) when writing is paused;
  otherwise it is \<open>drain\<close> above.
\<close>

definition sock_drain :: "channel \<Rightarrow> error option option" where
  "sock_drain ch =
     (if alive (sock ch) \<and> 0 < buffered ch
      then (if high_water < buffered ch then None else Some None)
      else Some (drain (sock ch)))"

text \<open>
  A \<open>drain\<close> that waits: it raises when the connection is reset and returns when writing
  is resumed.
\<close>

definition sock_drained :: "channel \<Rightarrow> error option option" where
  "sock_drained ch =
     (if \<not> alive (sock ch) then Some (Some ConnectionResetError)
      else if high_water < buffered ch then None
      else Some None)"

text \<open>
  \<open>ProxyChannel.write\<close> after \<open>drain\<close> has returned or raised \<open>e\<close>: any exception of the
  write or of sending \<open>OKAY\<close> closes.
\<close>

definition write_end :: "error option \<Rightarrow> nat \<Rightarrow> proxy \<Rightarrow> proxy" where
  "write_end e i p =
     (case e of
        Some x \<Rightarrow> close_await None i p
      | None \<Rightarrow>
          (case proxy_send_cmd (ascii ''OKAY'') (remote_id (chans p ! i)) (local_id (chans p ! i))
                  [] p of
             (Some x, p2) \<Rightarrow> close_await None i p2
           | (None, p2) \<Rightarrow> p2))"

text \<open>\<open>ProxyChannel.write\<close>, up to its return or to the suspension of the task of \<open>run\<close>.\<close>

definition chan_write :: "nat \<Rightarrow> bytes \<Rightarrow> proxy \<Rightarrow> proxy" where
  "chan_write i data p =
     (let p1 = p\<lparr>chans := (chans p)[i := sock_write data (chans p ! i)]\<rparr> in
      case sock_drain (chans p1 ! i) of
        None \<Rightarrow> p1\<lparr>stage := Draining i\<rparr>
      | Some e \<Rightarrow> write_end e i p1)"

text \<open>
  \<open>reader.read(n)\<close> when it returns: an error on a reset connection, the empty string at
  end of file, otherwise between one and \<open>n\<close> bytes, \<open>k\<close> being how many had arrived.
\<close>

definition read :: "int \<Rightarrow> nat \<Rightarrow> conn \<Rightarrow> (error + bytes) \<times> conn" where
  "read n k c =
     (if \<not> alive c then (Inl ConnectionResetError, c)
      else let m = min (nat n) (max 1 k)
           in (Inr (take m (inp c)), c\<lparr>inp := drop m (inp c)\<rparr>))"

text \<open>
  The \<open>finally\<close> block of \<open>sink\<close>, after which the task is finished. Nothing awaits the
  task, so an exception of \<open>close\<close> is lost with it.
\<close>

definition finish_sink :: "nat \<Rightarrow> proxy \<Rightarrow> proxy" where
  "finish_sink i p =
     (let p1 = (if \<not> closed (chans p ! i) then snd (close i p) else p)
      in p1\<lparr>chans := (chans p1)[i := (chans p1 ! i)\<lparr>sink_task := Done\<rparr>]\<rparr>)"

text \<open>
  \<open>ready_to_send.acquire()\<close> has returned with one unit; then \<open>if self.closed: break\<close>,
  otherwise the task goes on to \<open>reader.read\<close>.
\<close>

definition acquired :: "nat \<Rightarrow> proxy \<Rightarrow> proxy" where
  "acquired i p =
     (let ch = chans p ! i;
          p1 = p\<lparr>chans := (chans p)[i := ch\<lparr>ready_to_send := ready_to_send ch - 1\<rparr>]\<rparr>
      in if closed ch then finish_sink i p1
         else p1\<lparr>chans := (chans p1)[i := (chans p1 ! i)\<lparr>sink_task := Reading\<rparr>]\<rparr>)"

text \<open>
  \<open>ProxyChannel.sink\<close> of the channel at position \<open>i\<close>, from one suspension to the next.
  At \<open>LoopHead\<close> the task evaluates \<open>while not self.closed\<close> and calls \<open>acquire\<close>, which
  returns at once when a unit is available and suspends the task otherwise; at \<open>Acquire\<close>
  the suspended \<open>acquire\<close> returns once a unit is available; at \<open>Reading\<close> the read
  returns and the frame is sent; at \<open>Sleeping\<close> the pause is over and \<open>continue\<close> leads
  back to the head of the loop.
\<close>

definition sink :: "nat \<Rightarrow> nat \<Rightarrow> proxy \<Rightarrow> proxy" where
  "sink i k p =
     (let ch = chans p ! i in
      case sink_task ch of
        Done \<Rightarrow> p
      | LoopHead \<Rightarrow>
          if closed ch then finish_sink i p
          else if ready_to_send ch = 0
          then p\<lparr>chans := (chans p)[i := ch\<lparr>sink_task := Acquire\<rparr>]\<rparr>
          else acquired i p
      | Acquire \<Rightarrow> if ready_to_send ch = 0 then p else acquired i p
      | Sleeping \<Rightarrow> p\<lparr>chans := (chans p)[i := ch\<lparr>sink_task := LoopHead\<rparr>]\<rparr>
      | Reading \<Rightarrow>
          (case read max_data_len k (sock ch) of
             (Inl e, s) \<Rightarrow> finish_sink i (p\<lparr>chans := (chans p)[i := ch\<lparr>sock := s\<rparr>]\<rparr>)
           | (Inr data, s) \<Rightarrow>
               let p1 = p\<lparr>chans := (chans p)[i := ch\<lparr>sock := s\<rparr>]\<rparr> in
               if data = [] then
                 if startswith (name ch) (ascii ''shell:'')
                 then p1\<lparr>chans := (chans p1)[i := (chans p1 ! i)\<lparr>sink_task := Sleeping\<rparr>]\<rparr>
                 else finish_sink i p1
               else
                 (case proxy_send_cmd (ascii ''WRTE'') (remote_id ch) (local_id ch) data p1 of
                    (Some e, p2) \<Rightarrow> finish_sink i p2
                  | (None, p2) \<Rightarrow>
                      p2\<lparr>chans := (chans p2)[i := (chans p2 ! i)\<lparr>sink_task := LoopHead\<rparr>]\<rparr>)))"

text \<open>The handshake of \<open>AdbDeviceProxy.run\<close>, up to the loop.\<close>

definition run_handshake :: "proxy \<Rightarrow> error option \<times> proxy" where
  "run_handshake p =
     (case recv_cmd (peer p) of
        (Inl e, r) \<Rightarrow> (Some e, p\<lparr>peer := r\<rparr>)
      | (Inr (cmd, arg0, arg1, data), r) \<Rightarrow>
          let p1 = p\<lparr>peer := r, rcvd := rcvd p @ [(cmd, arg0, arg1, data)]\<rparr> in
          if cmd \<noteq> ascii ''CNXN'' then (Some (ExpectedCNXN cmd), p1)
          else proxy_send_cmd (ascii ''CNXN'') protocol_version max_data_len
                 (ascii ''device::'' @ device_name p1 @ [0]) p1)"

text \<open>
  One iteration of the \<open>while True\<close> loop of \<open>run\<close>, up to the next \<open>recv_cmd\<close> or to a
  suspension in \<open>write\<close> or \<open>close\<close>, which \<open>stage\<close> then records. \<open>host\<close> is what the host
  ADB server does if this iteration opens a connection to it; \<open>lid\<close> and \<open>rid\<close> are the
  variables \<open>local_id\<close> and \<open>remote_id\<close> of the source.
\<close>

definition run_loop :: "conn option \<Rightarrow> proxy \<Rightarrow> error option \<times> proxy" where
  "run_loop host p =
     (case recv_cmd (peer p) of
        (Inl e, r) \<Rightarrow> (Some e, p\<lparr>peer := r\<rparr>)
      | (Inr (cmd, lid, rid, data), r) \<Rightarrow>
          let p1 = p\<lparr>peer := r, rcvd := rcvd p @ [(cmd, lid, rid, data)]\<rparr> in
          if cmd = ascii ''OPEN'' then
            (case decode (rstrip_nul data) of
               Inl e \<Rightarrow> (Some e, p1)
             | Inr destination \<Rightarrow>
                 let rid = next_remote_id p1;
                     p2 = p1\<lparr>next_remote_id := next_remote_id p1 + 1\<rparr>
                 in (case open_client_stream host (device_id p2) destination of
                       Inl e \<Rightarrow> proxy_send_cmd (ascii ''CLSE'') lid 0 [] p2
                     | Inr s \<Rightarrow>
                         let channel = ProxyChannel destination lid rid s;
                             p3 = p2\<lparr>chans := chans p2 @ [channel],
                                     streams := (streams p2)(rid \<mapsto> length (chans p2))\<rparr>
                         in (case proxy_send_cmd (ascii ''OKAY'') rid lid [] p3 of
                               (Some e, p4) \<Rightarrow> proxy_send_cmd (ascii ''CLSE'') lid 0 [] p4
                             | (None, p4) \<Rightarrow> (None, p4))))
          else if cmd = ascii ''WRTE'' then
            (case streams p1 rid of
               Some i \<Rightarrow> (None, chan_write i data p1)
             | None \<Rightarrow> (None, p1))
          else if cmd = ascii ''OKAY'' then
            (case streams p1 rid of
               Some i \<Rightarrow> (None, ready i p1)
             | None \<Rightarrow> (None, p1))
          else if cmd = ascii ''CLSE'' then
            (case streams p1 rid of
               Some i \<Rightarrow> (None, close_await (Some rid) i p1)
             | None \<Rightarrow> proxy_send_cmd (ascii ''CLSE'') lid 0 [] p1)
          else (None, p1))"

text \<open>
  \<open>handle_connection\<close>, from one suspension of its task to the next: it takes a frame and
  handles it, or it resumes \<open>write\<close> or \<open>close\<close> once the wait there is over and stays
  where it is until then. An exception of \<open>run\<close> is caught (and logged), the \<open>finally\<close>
  block closes the client's writer, and the handler returns.
\<close>

definition handle_connection :: "conn option \<Rightarrow> proxy \<Rightarrow> proxy" where
  "handle_connection host p =
     (case stage p of
        Returned \<Rightarrow> p
      | Handshake \<Rightarrow>
          (case run_handshake p of
             (Some e, p1) \<Rightarrow> p1\<lparr>peer := close_conn (peer p1), stage := Returned\<rparr>
           | (None, p1) \<Rightarrow> p1\<lparr>stage := Dispatching\<rparr>)
      | Dispatching \<Rightarrow>
          (case run_loop host p of
             (Some e, p1) \<Rightarrow> p1\<lparr>peer := close_conn (peer p1), stage := Returned\<rparr>
           | (None, p1) \<Rightarrow> p1)
      | Draining i \<Rightarrow>
          (case sock_drained (chans p ! i) of
             None \<Rightarrow> p
           | Some e \<Rightarrow> write_end e i (p\<lparr>stage := Dispatching\<rparr>))
      | Closing i d \<Rightarrow>
          (case wait_closed (chans p ! i) of
             None \<Rightarrow> p
           | Some e \<Rightarrow>
               (case close_end i p of
                  (Some x, p1) \<Rightarrow> p1\<lparr>peer := close_conn (peer p1), stage := Returned\<rparr>
                | (None, p1) \<Rightarrow> after_close d (p1\<lparr>stage := Dispatching\<rparr>))))"

section \<open>Executions\<close>

text \<open>
  The asyncio event loop runs one task at a time and switches only where a task is
  suspended. An execution is a sequence of events: the handler task runs to its next
  suspension (\<open>Frame\<close>, with the behaviour of the host ADB server should it open a stream),
  the sink task of a channel runs to its next suspension (\<open>Pump\<close>, with the number of
  bytes that had arrived), the host resets the connection of a channel (\<open>HostReset\<close>),
  the service of a channel stops taking the bytes written to it (\<open>HostStall\<close>) or takes
  all of them again (\<open>HostFlush\<close>), or the client resets its connection (\<open>PeerReset\<close>).
\<close>

datatype event =
  Frame "conn option" | Pump nat nat | HostReset nat | HostStall nat | HostFlush nat | PeerReset

fun step :: "event \<Rightarrow> proxy \<Rightarrow> proxy" where
  "step (Frame host) p = handle_connection host p"
| "step (Pump i k) p = (if i < length (chans p) then sink i k p else p)"
| "step (HostReset i) p =
     (if i < length (chans p)
      then p\<lparr>chans := (chans p)[i := (chans p ! i)\<lparr>sock := (sock (chans p ! i))\<lparr>alive := False\<rparr>\<rparr>]\<rparr>
      else p)"
| "step (HostStall i) p =
     (if i < length (chans p)
      then p\<lparr>chans := (chans p)[i := (chans p ! i)\<lparr>backlog := Some (buffered (chans p ! i))\<rparr>]\<rparr>
      else p)"
| "step (HostFlush i) p =
     (if i < length (chans p)
      then p\<lparr>chans := (chans p)[i := (chans p ! i)\<lparr>backlog := None\<rparr>]\<rparr>
      else p)"
| "step PeerReset p = p\<lparr>peer := (peer p)\<lparr>alive := False\<rparr>\<rparr>"

definition exec :: "event list \<Rightarrow> proxy \<Rightarrow> proxy" where
  "exec evs p = foldl (\<lambda>q e. step e q) p evs"

text \<open>The frames the client has been sent: one chunk of the writer per \<open>send_cmd\<close>.\<close>

definition is_frame :: "bytes \<Rightarrow> int \<Rightarrow> bytes \<Rightarrow> bool" where
  "is_frame cmd arg0 chunk = (take 4 chunk = cmd \<and> unpack_I (take 4 (drop 4 chunk)) = Inr arg0)"

text \<open>The number of \<open>WRTE\<close> frames sent to the client for remote id \<open>r\<close>.\<close>

definition wrte_sent :: "int \<Rightarrow> proxy \<Rightarrow> nat" where
  "wrte_sent r p = length (filter (is_frame (ascii ''WRTE'') r) (out (peer p)))"

text \<open>The number of \<open>OKAY\<close> frames received from the client that address remote id \<open>r\<close>.\<close>

definition okay_rcvd :: "int \<Rightarrow> proxy \<Rightarrow> nat" where
  "okay_rcvd r p =
     length (filter (\<lambda>(cmd, arg0, arg1, data). cmd = ascii ''OKAY'' \<and> arg1 = r) (rcvd p))"

text \<open>
  The bytes of a frame as \<open>send_cmd\<close> encodes it (empty when it raises); this is how the
  executions below write down what a client sends.
\<close>

definition frame :: "bytes \<Rightarrow> int \<Rightarrow> int \<Rightarrow> bytes \<Rightarrow> bytes" where
  "frame cmd arg0 arg1 data =
     (case frame_bytes cmd arg0 arg1 data of Inr bs \<Rightarrow> bs | Inl e \<Rightarrow> [])"

section \<open>Invariants of executions\<close>

text \<open>
  Credit accounting of one channel: the \<open>WRTE\<close> frames sent for it, the units in its
  semaphore and the unit its sink task holds while reading are covered by the starter
  unit, the \<open>OKAY\<close> frames received for its remote id and the unit \<open>close\<close> releases,
  which stays in the semaphore.
\<close>

definition credit_ok :: "proxy \<Rightarrow> channel \<Rightarrow> bool" where
  "credit_ok p ch =
     (wrte_sent (remote_id ch) p + ready_to_send ch + (if sink_task ch = Reading then 1 else 0)
        \<le> 1 + okay_rcvd (remote_id ch) p + (if closed ch then 1 else 0)
      \<and> (closed ch \<longrightarrow> 1 \<le> ready_to_send ch))"

text \<open>The remote ids of the channels increase strictly in creation order, from 1 on.\<close>

definition ids_ok :: "proxy \<Rightarrow> bool" where
  "ids_ok p =
     (sorted_wrt (<) (map remote_id (chans p))
      \<and> list_all (\<lambda>ch. 1 \<le> remote_id ch \<and> remote_id ch < next_remote_id p) (chans p)
      \<and> 1 \<le> next_remote_id p)"

text \<open>Every entry of the table leads to the channel object that carries its key.\<close>

definition table_ok :: "proxy \<Rightarrow> bool" where
  "table_ok p =
     (\<forall>r i. streams p r = Some i \<longrightarrow> i < length (chans p) \<and> remote_id (chans p ! i) = r)"

text \<open>A channel that is not closed is in the table, under its remote id.\<close>

definition open_in_table :: "proxy \<Rightarrow> bool" where
  "open_in_table p =
     (\<forall>i < length (chans p).
        \<not> closed (chans p ! i) \<longrightarrow> streams p (remote_id (chans p ! i)) = Some i)"

text \<open>
  A handler suspended in \<open>write\<close> or \<open>close\<close> is there for a channel that exists; in \<open>close\<close>
  the channel is closed, and the key to delete afterwards is in the table and leads to it.
\<close>

definition stage_ok :: "proxy \<Rightarrow> bool" where
  "stage_ok p =
     (case stage p of
        Draining i \<Rightarrow> i < length (chans p)
      | Closing i d \<Rightarrow>
          i < length (chans p) \<and> closed (chans p ! i)
          \<and> (case d of Some rid \<Rightarrow> streams p rid = Some i | None \<Rightarrow> True)
      | _ \<Rightarrow> True)"

definition inv :: "proxy \<Rightarrow> bool" where
  "inv p =
     (ids_ok p \<and> table_ok p \<and> open_in_table p
      \<and> list_all (credit_ok p) (chans p)
      \<and> list_all (\<lambda>ch. closed ch \<longrightarrow> sink_task ch = Done) (chans p)
      \<and> (\<forall>r \<ge> next_remote_id p. wrte_sent r p = 0)
      \<and> (stage p \<noteq> Returned \<longrightarrow> \<not> closing (peer p))
      \<and> stage_ok p)"

text \<open>
  A step that belongs to the channel at position \<open>i\<close>: it changes no other channel,
  neither the table nor the id counter, forgets no received \<open>OKAY\<close>, sends no \<open>WRTE\<close>
  frame for another remote id, never reopens the channel, and keeps its credit
  accounting.
\<close>

definition channel_step :: "nat \<Rightarrow> proxy \<Rightarrow> proxy \<Rightarrow> bool" where
  "channel_step i p p' =
     (streams p' = streams p \<and> next_remote_id p' = next_remote_id p
      \<and> (\<forall>r. okay_rcvd r p \<le> okay_rcvd r p')
      \<and> stage p' = stage p \<and> closing (peer p') = closing (peer p)
      \<and> length (chans p') = length (chans p)
      \<and> (\<forall>j. j \<noteq> i \<longrightarrow> chans p' ! j = chans p ! j)
      \<and> remote_id (chans p' ! i) = remote_id (chans p ! i)
      \<and> (closed (chans p ! i) \<longrightarrow> closed (chans p' ! i))
      \<and> (\<forall>r. r \<noteq> remote_id (chans p ! i) \<longrightarrow> wrte_sent r p' = wrte_sent r p)
      \<and> ((closed (chans p ! i) \<longrightarrow> sink_task (chans p ! i) = Done) \<and> credit_ok p (chans p ! i)
           \<longrightarrow> (closed (chans p' ! i) \<longrightarrow> sink_task (chans p' ! i) = Done)
               \<and> credit_ok p' (chans p' ! i)))"

text \<open>
  The frames of the loop of \<open>run\<close> that are given a remote id: \<open>OPEN\<close> with a destination
  that decodes. The first frame received is the one of the handshake.
\<close>

definition open_frame :: "bytes \<times> int \<times> int \<times> bytes \<Rightarrow> bool" where
  "open_frame f =
     (case f of (cmd, arg0, arg1, data) \<Rightarrow>
        cmd = ascii ''OPEN''
        \<and> (case decode (rstrip_nul data) of Inr destination \<Rightarrow> True | Inl e \<Rightarrow> False))"

definition opens :: "proxy \<Rightarrow> nat" where
  "opens p = length (filter open_frame (tl (rcvd p)))"



text \<open>A step that takes no frame, advances no counter and creates no channel.\<close>

definition same_ids :: "proxy \<Rightarrow> proxy \<Rightarrow> bool" where
  "same_ids p p' =
     (rcvd p' = rcvd p \<and> next_remote_id p' = next_remote_id p
      \<and> map remote_id (chans p') = map remote_id (chans p))"


section \<open>Frames of the scenarios\<close>

text \<open>The handshake frame of a client, \<open>CNXN(0x01000000, 0x00040000, "host::\0")\<close>.\<close>

definition hello :: bytes where
  "hello = frame (ascii ''CNXN'') 16777216 262144 (ascii ''host::'' @ [0])"

text \<open>The proxy's answer for device \<open>dev\<close>, \<open>CNXN\<close> with the banner \<open>"device::proxy_<dev>\0"\<close>.\<close>

definition banner :: "bytes \<Rightarrow> bytes" where
  "banner dev =
     frame (ascii ''CNXN'') protocol_version max_data_len
       (ascii ''device::'' @ ascii ''proxy_'' @ dev @ [0])"

text \<open>
  The connection to the host ADB server after both requests for \<open>destination\<close> on device
  \<open>dev\<close> were answered by \<open>OKAY\<close>, with \<open>data\<close> still to come from the service.
\<close>

definition opened :: "bytes \<Rightarrow> bytes \<Rightarrow> bytes \<Rightarrow> conn" where
  "opened dev destination data =
     \<lparr>inp = data,
      out = [format_04x (length (ascii ''host:transport:'' @ dev)) @ ascii ''host:transport:'' @ dev,
             format_04x (length destination) @ destination],
      closing = False, alive = True\<rparr>"

text \<open>
  The proxy for device \<open>dev1\<close> after the handshake and after \<open>OPEN(7, 0, destination)\<close> was
  answered with \<open>OKAY(1, 7)\<close>: one channel, not yet run, whose service will deliver
  \<open>data\<close>; \<open>rest\<close> is what the client sends next.
\<close>

definition session :: "bytes \<Rightarrow> bytes \<Rightarrow> bytes \<Rightarrow> proxy" where
  "session destination data rest =
     \<lparr>peer = \<lparr>inp = rest,
              out = [banner (ascii ''dev1''), frame (ascii ''OKAY'') 1 7 []],
              closing = False, alive = True\<rparr>,
      device_id = ascii ''dev1'',
      streams = [1 \<mapsto> 0],
      next_remote_id = 2,
      chans = [ProxyChannel destination 7 1 (opened (ascii ''dev1'') destination data)],
      rcvd = [(ascii ''CNXN'', 16777216, 262144, ascii ''host::'' @ [0]),
              (ascii ''OPEN'', 7, 0, destination @ [0])],
      stage = Dispatching\<rparr>"

text \<open>
  A session whose service stops taking bytes; the client then writes one byte to the
  stream and closes it: \<open>WRTE(7, 1, "x")\<close>, \<open>CLSE(7, 1)\<close>.
\<close>

definition stalled :: proxy where
  "stalled =
     exec [HostStall 0, Frame None, Frame None]
       (session (ascii ''shell:ls'') []
          (frame (ascii ''WRTE'') 7 1 [120] @ frame (ascii ''CLSE'') 7 1 []))"

section \<open>Codec lemmas\<close>

lemma length_pack_I: "pack_I x = Inr bs \<Longrightarrow> length bs = 4"
  by (auto simp: pack_I_def split: if_splits)

lemma uint_byte_of_mod: "uint (word_of_int (x mod 256) :: byte) = x mod 256"
  by (simp add: uint_word_of_int)

lemma split4:
  fixes x :: int
  assumes "0 \<le> x" "x < 2 ^ 32"
  shows "x mod 256 + 256 * (x div 256 mod 256) + 65536 * (x div 65536 mod 256)
          + 16777216 * (x div 16777216 mod 256) = x"
proof -
  have a: "x = 256 * (x div 256) + x mod 256" by simp
  have b: "x div 256 = 256 * (x div 65536) + x div 256 mod 256"
    using zdiv_zmult2_eq [of 256 x 256] by simp
  have c: "x div 65536 = 256 * (x div 16777216) + x div 65536 mod 256"
  proof -
    have "x div 65536 div 256 = x div 16777216"
      using zdiv_zmult2_eq [of 65536 x 256] by simp
    then show ?thesis
      using mult_div_mod_eq [of 256 "x div 65536"] by simp
  qed
  have "x div 16777216 < 256" using assms by simp
  moreover have "0 \<le> x div 16777216" using assms by simp
  ultimately have d: "x div 16777216 mod 256 = x div 16777216" by simp
  show ?thesis using a b c d by linarith
qed


lemma unpack_pack_I:
  assumes "0 \<le> x" "x < 2 ^ 32"
  shows "\<exists>bs. pack_I x = Inr bs \<and> length bs = 4 \<and> unpack_I bs = Inr x"
proof -
  let ?bs = "[word_of_int (x mod 256), word_of_int (x div 256 mod 256),
              word_of_int (x div 65536 mod 256), word_of_int (x div 16777216 mod 256)] :: bytes"
  have p: "pack_I x = Inr ?bs"
    using assms by (simp add: pack_I_def)
  have "unpack_I ?bs = Inr (x mod 256 + 256 * (x div 256 mod 256) + 65536 * (x div 65536 mod 256)
          + 16777216 * (x div 16777216 mod 256))"
    by (simp only: unpack_I.simps uint_byte_of_mod)
  then have u: "unpack_I ?bs = Inr x"
    by (simp only: split4 [OF assms])
  have "length ?bs = 4" by simp
  with p u show ?thesis by blast
qed

lemma byte_digits:
  fixes a b y :: int
  assumes "0 \<le> a" "a < 256" "y = a + 256 * b"
  shows "y mod 256 = a" "y div 256 = b"
  using assms by simp_all

lemma pack_unpack_I:
  assumes "length cmd = 4"
  shows "\<exists>x. unpack_I cmd = Inr x \<and> 0 \<le> x \<and> x < 2 ^ 32 \<and> pack_I x = Inr cmd"
proof -
  obtain b0 b1 b2 b3 :: byte where cmd: "cmd = [b0, b1, b2, b3]"
    using assms by (auto simp: length_Suc_conv eval_nat_numeral)
  define x where "x = uint b0 + 256 * uint b1 + 65536 * uint b2 + 16777216 * uint b3"
  have r: "0 \<le> uint b0" "uint b0 < 256" "0 \<le> uint b1" "uint b1 < 256"
          "0 \<le> uint b2" "uint b2 < 256" "0 \<le> uint b3" "uint b3 < 256"
    using uint_bounded [of b0] uint_bounded [of b1] uint_bounded [of b2] uint_bounded [of b3]
    by simp_all
  have x0: "x = uint b0 + 256 * (uint b1 + 256 * (uint b2 + 256 * uint b3))"
    by (simp add: x_def)
  note s0 = byte_digits [OF r(1,2) x0]
  have x1: "x div 256 = uint b1 + 256 * (uint b2 + 256 * uint b3)" by (rule s0(2))
  note s1 = byte_digits [OF r(3,4) x1]
  have x2: "x div 256 div 256 = uint b2 + 256 * uint b3" by (rule s1(2))
  note s2 = byte_digits [OF r(5,6) x2]
  have e2: "x div 65536 = x div 256 div 256"
    using zdiv_zmult2_eq [of 256 x 256] by simp
  have e3: "x div 16777216 = x div 256 div 256 div 256"
    using zdiv_zmult2_eq [of 256 x 65536] e2 by simp
  have d0: "x mod 256 = uint b0" by (rule s0(1))
  have d1: "x div 256 mod 256 = uint b1" by (rule s1(1))
  have d2: "x div 65536 mod 256 = uint b2" using s2(1) e2 by simp
  have "x div 16777216 = uint b3" using s2(2) e3 by simp
  then have d3: "x div 16777216 mod 256 = uint b3" using r(7,8) by simp
  have rng: "0 \<le> x" "x < 2 ^ 32" unfolding x_def using r by simp_all
  have p: "pack_I x = Inr cmd"
    using rng by (simp add: pack_I_def d0 d1 d2 d3 cmd)
  have u: "unpack_I cmd = Inr x" by (simp add: cmd x_def)
  show ?thesis using p u rng by blast
qed

lemma crc32_range: "0 \<le> crc32 data \<and> crc32 data < 2 ^ 32"
  using uint_bounded [of "foldl crc_byte 0xFFFFFFFF data XOR 0xFFFFFFFF :: 32 word"]
  by (simp add: crc32_def)

lemma magic_range:
  fixes c :: int
  assumes "0 \<le> c" "c < 2 ^ 32"
  shows "0 \<le> c XOR 0xFFFFFFFF \<and> c XOR 0xFFFFFFFF < 2 ^ 32"
proof -
  have "c XOR 0xFFFFFFFF < 2 ^ 32"
    using XOR_upper [of c 32 "0xFFFFFFFF"] assms by simp
  moreover have "0 \<le> c XOR 0xFFFFFFFF"
    using assms by simp
  ultimately show ?thesis by simp
qed

lemma magic_involution: "(c XOR 0xFFFFFFFF) XOR 0xFFFFFFFF = (c :: int)"
  by (simp add: xor.assoc)

lemma unpack_6I_fields:
  assumes "length h0 = 4" "length h1 = 4" "length h2 = 4" "length h3 = 4" "length h4 = 4"
    "length h5 = 4"
    "unpack_I h0 = Inr v0" "unpack_I h1 = Inr v1" "unpack_I h2 = Inr v2" "unpack_I h3 = Inr v3"
    "unpack_I h4 = Inr v4" "unpack_I h5 = Inr v5"
  shows "unpack_6I (h0 @ h1 @ h2 @ h3 @ h4 @ h5) = Inr [v0, v1, v2, v3, v4, v5]"
  using assms by (simp add: unpack_6I_def)

lemma frame_bytes_header:
  assumes "length cmd = 4" "0 \<le> arg0" "arg0 < 2 ^ 32" "0 \<le> arg1" "arg1 < 2 ^ 32"
    "length data < 2 ^ 32"
  shows "\<exists>header cmd_id. frame_bytes cmd arg0 arg1 data = Inr (header @ data)
           \<and> length header = 24 \<and> take 4 header = cmd
           \<and> unpack_6I header =
               Inr [cmd_id, arg0, arg1, int (length data), crc32 data, cmd_id XOR 0xFFFFFFFF]"
proof -
  obtain c where c: "unpack_I cmd = Inr c" "0 \<le> c" "c < 2 ^ 32" "pack_I c = Inr cmd"
    using pack_unpack_I [OF assms(1)] by blast
  obtain h1 where h1: "pack_I arg0 = Inr h1" "length h1 = 4" "unpack_I h1 = Inr arg0"
    using unpack_pack_I [OF assms(2,3)] by blast
  obtain h2 where h2: "pack_I arg1 = Inr h2" "length h2 = 4" "unpack_I h2 = Inr arg1"
    using unpack_pack_I [OF assms(4,5)] by blast
  have "int (length data) < 2 ^ 32" using assms(6) by (simp flip: of_nat_less_iff)
  then obtain h3 where h3: "pack_I (int (length data)) = Inr h3" "length h3 = 4"
      "unpack_I h3 = Inr (int (length data))"
    using unpack_pack_I [of "int (length data)"] by auto
  obtain h4 where h4: "pack_I (crc32 data) = Inr h4" "length h4 = 4"
      "unpack_I h4 = Inr (crc32 data)"
    using unpack_pack_I [of "crc32 data"] crc32_range [of data] by blast
  obtain h5 where h5: "pack_I (c XOR 0xFFFFFFFF) = Inr h5" "length h5 = 4"
      "unpack_I h5 = Inr (c XOR 0xFFFFFFFF)"
    using unpack_pack_I [of "c XOR 0xFFFFFFFF"] magic_range [OF c(2,3)] by blast
  let ?header = "cmd @ h1 @ h2 @ h3 @ h4 @ h5"
  have "pack_Is [c, arg0, arg1, int (length data), crc32 data, c XOR 0xFFFFFFFF] = Inr ?header"
    by (simp add: c(4) h1(1) h2(1) h3(1) h4(1) h5(1))
  then have f: "frame_bytes cmd arg0 arg1 data = Inr (?header @ data)"
    by (simp add: frame_bytes_def c(1))
  have l: "length ?header = 24"
    by (simp add: assms(1) h1(2) h2(2) h3(2) h4(2) h5(2))
  have t: "take 4 ?header = cmd"
    by (simp add: assms(1))
  have u: "unpack_6I ?header =
             Inr [c, arg0, arg1, int (length data), crc32 data, c XOR 0xFFFFFFFF]"
    by (rule unpack_6I_fields [OF assms(1) h1(2) h2(2) h3(2) h4(2) h5(2) c(1) h1(3) h2(3) h3(3)
          h4(3) h5(3)])
  from f l t u show ?thesis by blast
qed

lemma recv_cmd_frame:
  assumes "length header = 24"
    "unpack_6I header = Inr [cmd_id, arg0, arg1, int (length data), crc, cmd_id XOR 0xFFFFFFFF]"
    "alive r" "inp r = header @ data @ rest"
  shows "recv_cmd r = (Inr (take 4 header, arg0, arg1, data), r\<lparr>inp := rest\<rparr>)"
proof -
  have a: "readexactly 24 r = (Inr header, r\<lparr>inp := data @ rest\<rparr>)"
    using assms(1,3,4) by (simp add: readexactly_def)
  have b: "readexactly (int (length data)) (r\<lparr>inp := data @ rest\<rparr>)
             = (Inr data, r\<lparr>inp := rest\<rparr>)"
    using assms(3) by (simp add: readexactly_def)
  show ?thesis
    by (simp add: recv_cmd_def a assms(2) magic_involution b)
qed

text \<open>
  Claim C7. For every 4-byte command tag, every pair of arguments in the range of a u32 and
  every payload of at most \<open>max_data_len\<close> (262144) bytes, \<open>send_cmd\<close> on a fresh connection
  succeeds and writes one chunk, and \<open>recv_cmd\<close> on a reader that delivers this chunk
  (followed by anything) returns exactly the tag, the arguments and the payload, leaving
  the rest of the input unread.
\<close>

theorem encode_decode_identity:
  assumes "length cmd = 4" "0 \<le> arg0" "arg0 < 2 ^ 32" "0 \<le> arg1" "arg1 < 2 ^ 32"
    "int (length data) \<le> max_data_len"
  shows "\<exists>bs. send_cmd (new_conn []) cmd arg0 arg1 data = (None, (new_conn [])\<lparr>out := [bs]\<rparr>)
           \<and> recv_cmd (new_conn (bs @ rest)) = (Inr (cmd, arg0, arg1, data), new_conn rest)"
proof -
  have "length data < 2 ^ 32" using assms(6) by (simp add: max_data_len_def)
  from frame_bytes_header [OF assms(1-5) this]
  obtain header cmd_id where h: "frame_bytes cmd arg0 arg1 data = Inr (header @ data)"
      "length header = 24" "take 4 header = cmd"
      "unpack_6I header =
         Inr [cmd_id, arg0, arg1, int (length data), crc32 data, cmd_id XOR 0xFFFFFFFF]"
    by blast
  have s: "send_cmd (new_conn []) cmd arg0 arg1 data
             = (None, (new_conn [])\<lparr>out := [header @ data]\<rparr>)"
    by (simp add: send_cmd_def h(1) write_conn_def drain_def new_conn_def)
  have "recv_cmd (new_conn ((header @ data) @ rest))
          = (Inr (take 4 header, arg0, arg1, data), (new_conn ((header @ data) @ rest))\<lparr>inp := rest\<rparr>)"
    by (rule recv_cmd_frame [OF h(2) h(4)]) (simp_all add: new_conn_def)
  then have r: "recv_cmd (new_conn ((header @ data) @ rest))
                  = (Inr (cmd, arg0, arg1, data), new_conn rest)"
    by (simp add: h(3) new_conn_def)
  from s r show ?thesis by blast
qed

theorem encode_decode_identity_witness:
  "\<exists>bs. send_cmd (new_conn []) [0x4f, 0x4b, 0x41, 0x59] 1 7 [0x68, 0x69]
            = (None, (new_conn [])\<lparr>out := [bs]\<rparr>)
      \<and> recv_cmd (new_conn (bs @ [0x00])) = (Inr ([0x4f, 0x4b, 0x41, 0x59], 1, 7, [0x68, 0x69]), new_conn [0x00])"
  using encode_decode_identity [of "[0x4f, 0x4b, 0x41, 0x59]" 1 7 "[0x68, 0x69]" "[0x00]"]
  by (simp add: max_data_len_def)

section \<open>Invariant lemmas\<close>

lemma unpack_I_length: "unpack_I cmd = Inr c \<Longrightarrow> length cmd = 4"
  by (erule unpack_I.elims) simp_all

lemma pack_I_range: "pack_I x = Inr bs \<Longrightarrow> 0 \<le> x \<and> x < 2 ^ 32"
  by (simp add: pack_I_def split: if_splits)

lemma pack_I_unpack: "pack_I x = Inr bs \<Longrightarrow> length bs = 4 \<and> unpack_I bs = Inr x"
  using unpack_pack_I [of x] pack_I_range [of x bs] by auto

lemma frame_bytes_is_frame:
  assumes "frame_bytes cmd arg0 arg1 data = Inr bs"
  shows "is_frame cmd arg0 bs"
proof -
  from assms obtain c header where c: "unpack_I cmd = Inr c"
    and h: "pack_Is [c, arg0, arg1, int (length data), crc32 data, c XOR 0xFFFFFFFF] = Inr header"
    and bs: "bs = header @ data"
    by (auto simp: frame_bytes_def split: sum.splits)
  from h obtain h0 h1 rest where h0: "pack_I c = Inr h0" and h1: "pack_I arg0 = Inr h1"
    and header: "header = h0 @ h1 @ rest"
    by (auto split: sum.splits)
  have lc: "length cmd = 4" using c by (rule unpack_I_length)
  have "h0 = cmd" using pack_unpack_I [OF lc] c h0 by auto
  moreover have "length h1 = 4" "unpack_I h1 = Inr arg0" using pack_I_unpack [OF h1] by simp_all
  ultimately show ?thesis
    using lc by (simp add: is_frame_def bs header)
qed

lemma ascii_tags:
  "ascii ''WRTE'' \<noteq> ascii ''OKAY''" "ascii ''WRTE'' \<noteq> ascii ''CLSE''"
  "ascii ''WRTE'' \<noteq> ascii ''CNXN''" "ascii ''WRTE'' \<noteq> ascii ''OPEN''"
  "ascii ''OKAY'' \<noteq> ascii ''CLSE''" "ascii ''OKAY'' \<noteq> ascii ''CNXN''"
  "ascii ''OKAY'' \<noteq> ascii ''OPEN''" "ascii ''CLSE'' \<noteq> ascii ''CNXN''"
  "ascii ''CLSE'' \<noteq> ascii ''OPEN''" "ascii ''CNXN'' \<noteq> ascii ''OPEN''"
  by (simp_all add: ascii_def)

text \<open>What \<open>proxy_send_cmd\<close> changes: only the writer of the client connection.\<close>

lemma proxy_send_cmd_frame:
  assumes "proxy_send_cmd cmd arg0 arg1 data p = (e, p')"
  shows "chans p' = chans p" "streams p' = streams p" "next_remote_id p' = next_remote_id p"
    "rcvd p' = rcvd p" "stage p' = stage p" "device_id p' = device_id p"
    "closing (peer p') = closing (peer p)" "alive (peer p') = alive (peer p)"
    "inp (peer p') = inp (peer p)"
  using assms
  by (auto simp: proxy_send_cmd_def send_cmd_def write_conn_def Let_def split: sum.splits)

lemma proxy_send_cmd_wrte:
  assumes "proxy_send_cmd cmd arg0 arg1 data p = (e, p')"
  shows "wrte_sent r p' \<le> wrte_sent r p + (if cmd = ascii ''WRTE'' \<and> arg0 = r then 1 else 0)"
    and "wrte_sent r p \<le> wrte_sent r p'"
proof -
  show "wrte_sent r p' \<le> wrte_sent r p + (if cmd = ascii ''WRTE'' \<and> arg0 = r then 1 else 0)"
  proof (cases "frame_bytes cmd arg0 arg1 data")
    case (Inl a)
    then show ?thesis using assms
      by (auto simp: proxy_send_cmd_def send_cmd_def wrte_sent_def)
  next
    case (Inr bs)
    then have "is_frame cmd arg0 bs" by (rule frame_bytes_is_frame)
    then have "is_frame (ascii ''WRTE'') r bs \<Longrightarrow> cmd = ascii ''WRTE'' \<and> arg0 = r"
      by (auto simp: is_frame_def)
    then show ?thesis using assms Inr
      by (auto simp: proxy_send_cmd_def send_cmd_def wrte_sent_def write_conn_def Let_def)
  qed
  show "wrte_sent r p \<le> wrte_sent r p'"
    using assms
    by (auto simp: proxy_send_cmd_def send_cmd_def wrte_sent_def write_conn_def Let_def
        split: sum.splits)
qed

lemma okay_rcvd_peer [simp]: "okay_rcvd r (p\<lparr>peer := w\<rparr>) = okay_rcvd r p"
  by (simp add: okay_rcvd_def)

lemma okay_rcvd_chans [simp]: "okay_rcvd r (p\<lparr>chans := cs\<rparr>) = okay_rcvd r p"
  by (simp add: okay_rcvd_def)

lemma wrte_sent_chans [simp]: "wrte_sent r (p\<lparr>chans := cs\<rparr>) = wrte_sent r p"
  by (simp add: wrte_sent_def)

lemma proxy_send_cmd_okay:
  assumes "proxy_send_cmd cmd arg0 arg1 data p = (e, p')"
  shows "okay_rcvd r p' = okay_rcvd r p"
  using assms by (auto simp: proxy_send_cmd_def okay_rcvd_def split: prod.splits)

lemma channel_step_refl: "channel_step i p p"
  by (simp add: channel_step_def)

lemma channel_step_trans:
  assumes "channel_step i p p'" "channel_step i p' p''"
  shows "channel_step i p p''"
proof -
  have "okay_rcvd r p \<le> okay_rcvd r p''" for r
    using assms order_trans [of "okay_rcvd r p" "okay_rcvd r p'" "okay_rcvd r p''"]
    by (simp add: channel_step_def)
  then show ?thesis
    using assms unfolding channel_step_def by (intro conjI; simp)
qed

lemma credit_ok_cong:
  assumes "wrte_sent (remote_id ch') p' = wrte_sent (remote_id ch) p"
    "okay_rcvd (remote_id ch') p' = okay_rcvd (remote_id ch) p"
    "ready_to_send ch' = ready_to_send ch" "sink_task ch' = sink_task ch" "closed ch' = closed ch"
  shows "credit_ok p' ch' = credit_ok p ch"
  using assms by (simp add: credit_ok_def)

text \<open>Changing only the connection of a channel.\<close>

lemma channel_step_sock:
  assumes "i < length (chans p)"
  shows "channel_step i p (p\<lparr>chans := (chans p)[i := (chans p ! i)\<lparr>sock := s\<rparr>]\<rparr>)"
  using assms by (simp add: channel_step_def credit_ok_def wrte_sent_def okay_rcvd_def)

lemma channel_step_backlog:
  assumes "i < length (chans p)"
  shows "channel_step i p (p\<lparr>chans := (chans p)[i := (chans p ! i)\<lparr>backlog := b\<rparr>]\<rparr>)"
  using assms by (simp add: channel_step_def credit_ok_def wrte_sent_def okay_rcvd_def)

lemma channel_step_sock_write:
  assumes "i < length (chans p)"
  shows "channel_step i p (p\<lparr>chans := (chans p)[i := sock_write data (chans p ! i)]\<rparr>)"
  using assms
  by (simp add: channel_step_def credit_ok_def wrte_sent_def okay_rcvd_def sock_write_def)

text \<open>Sending a frame other than \<open>WRTE\<close>.\<close>

lemma channel_step_send:
  assumes "proxy_send_cmd cmd arg0 arg1 data p = (e, p')" "cmd \<noteq> ascii ''WRTE''"
  shows "channel_step i p p'"
proof -
  have w: "wrte_sent r p' = wrte_sent r p" for r
    using proxy_send_cmd_wrte [OF assms(1), of r] assms(2) by simp
  have k: "okay_rcvd r p' = okay_rcvd r p" for r
    by (rule proxy_send_cmd_okay [OF assms(1)])
  note f = proxy_send_cmd_frame [OF assms(1)]
  show ?thesis
    unfolding channel_step_def by (simp add: f w k credit_ok_def)
qed

lemma close_begin_unfold:
  "close_begin i p =
     p\<lparr>chans := (chans p)[i := (chans p ! i)\<lparr>closed := True,
          ready_to_send := Suc (ready_to_send (chans p ! i)), sink_task := Done,
          sock := close_conn (sock (chans p ! i))\<rparr>]\<rparr>"
proof (cases "sink_task (chans p ! i) = Done")
  case True
  let ?ch = "chans p ! i"
  let ?X = "?ch\<lparr>closed := True, ready_to_send := Suc (ready_to_send ?ch),
                sock := close_conn (sock ?ch)\<rparr>"
  let ?Y = "?ch\<lparr>closed := True, ready_to_send := Suc (ready_to_send ?ch), sink_task := Done,
                sock := close_conn (sock ?ch)\<rparr>"
  have eq: "?X = ?Y"
    by (rule channel.equality) (simp_all add: True)
  have "close_begin i p = p\<lparr>chans := (chans p)[i := ?X]\<rparr>"
    using True by (simp add: close_begin_def Let_def release_def)
  then show ?thesis by (simp only: eq)
next
  case False
  then show ?thesis
    by (simp add: close_begin_def Let_def release_def)
qed

lemma close_unfold:
  assumes "\<not> closed (chans p ! i)" "i < length (chans p)"
  shows "close i p =
           proxy_send_cmd (ascii ''CLSE'') (remote_id (chans p ! i)) (local_id (chans p ! i)) []
             (p\<lparr>chans := (chans p)[i := (chans p ! i)\<lparr>closed := True,
                  ready_to_send := Suc (ready_to_send (chans p ! i)), sink_task := Done,
                  sock := close_conn (sock (chans p ! i))\<rparr>]\<rparr>)"
  using assms by (simp add: close_def close_end_def close_begin_unfold)

lemma channel_step_close_begin:
  assumes "i < length (chans p)" "\<not> closed (chans p ! i)"
  shows "channel_step i p (close_begin i p)"
  using assms by (simp add: close_begin_unfold channel_step_def credit_ok_def)

lemma channel_step_close_end:
  assumes "close_end i p = (e, p')"
  shows "channel_step i p p'"
  by (rule channel_step_send [OF assms [unfolded close_end_def]])
    (simp add: ascii_tags ascii_tags [symmetric])

lemma close_closed:
  assumes "close i p = (e, p')" "i < length (chans p)"
  shows "closed (chans p' ! i)"
proof (cases "closed (chans p ! i)")
  case True
  then show ?thesis using assms by (simp add: close_def)
next
  case False
  let ?ch = "chans p ! i"
  let ?ch3 = "?ch\<lparr>closed := True, ready_to_send := Suc (ready_to_send ?ch), sink_task := Done,
                  sock := close_conn (sock ?ch)\<rparr>"
  have s: "proxy_send_cmd (ascii ''CLSE'') (remote_id ?ch) (local_id ?ch) []
             (p\<lparr>chans := (chans p)[i := ?ch3]\<rparr>) = (e, p')"
    using assms(1) close_unfold [OF False assms(2)] by simp
  show ?thesis
    using proxy_send_cmd_frame(1) [OF s] assms(2) by simp
qed

lemma channel_step_close:
  assumes "close i p = (e, p')" "i < length (chans p)"
  shows "channel_step i p p'"
proof (cases "closed (chans p ! i)")
  case True
  then have "p' = p" using assms(1) by (simp add: close_def)
  then show ?thesis by (simp add: channel_step_refl)
next
  case False
  then have "close_end i (close_begin i p) = (e, p')"
    using assms(1) by (simp add: close_def)
  from channel_step_trans [OF channel_step_close_begin [OF assms(2) False]
      channel_step_close_end [OF this]]
  show ?thesis .
qed

lemma channel_step_task:
  assumes "i < length (chans p)" "t \<noteq> Reading"
    "t = Done \<or> sink_task (chans p ! i) \<noteq> Done"
  shows "channel_step i p (p\<lparr>chans := (chans p)[i := (chans p ! i)\<lparr>sink_task := t\<rparr>]\<rparr>)"
  using assms by (auto simp: channel_step_def credit_ok_def)

lemma finish_sink_task:
  assumes "i < length (chans p)"
  shows "finish_sink i (p\<lparr>chans := (chans p)[i := (chans p ! i)\<lparr>sink_task := t\<rparr>]\<rparr>)
           = finish_sink i p"
proof (cases "closed (chans p ! i)")
  case True
  then show ?thesis using assms by (simp add: finish_sink_def)
next
  case False
  let ?q = "p\<lparr>chans := (chans p)[i := (chans p ! i)\<lparr>sink_task := t\<rparr>]\<rparr>"
  have nq: "\<not> closed (chans ?q ! i)" using False assms by simp
  have lq: "i < length (chans ?q)" using assms by simp
  have "close i ?q = close i p"
    unfolding close_unfold [OF nq lq] close_unfold [OF False assms] using assms by simp
  then show ?thesis using False nq by (simp add: finish_sink_def)
qed

lemma channel_step_finish_sink:
  assumes "i < length (chans p)"
  shows "channel_step i p (finish_sink i p)"
proof -
  let ?p1 = "if \<not> closed (chans p ! i) then snd (close i p) else p"
  have a: "channel_step i p ?p1"
    using channel_step_close [OF _ assms, of "fst (close i p)" "snd (close i p)"]
    by (simp add: channel_step_refl)
  then have l: "i < length (chans ?p1)" using assms by (simp add: channel_step_def)
  have b: "channel_step i ?p1 (?p1\<lparr>chans := (chans ?p1)[i := (chans ?p1 ! i)\<lparr>sink_task := Done\<rparr>]\<rparr>)"
    by (rule channel_step_task [OF l]) simp_all
  have "finish_sink i p = ?p1\<lparr>chans := (chans ?p1)[i := (chans ?p1 ! i)\<lparr>sink_task := Done\<rparr>]\<rparr>"
    by (simp add: finish_sink_def Let_def)
  then show ?thesis using channel_step_trans [OF a b] by simp
qed

text \<open>Sending the \<open>WRTE\<close> frame of a channel whose sink task holds a unit.\<close>

lemma channel_step_wrte:
  assumes "proxy_send_cmd (ascii ''WRTE'') (remote_id (chans p ! i)) lid data p = (e, p2)"
    "i < length (chans p)" "sink_task (chans p ! i) = Reading"
  shows "channel_step i p (p2\<lparr>chans := (chans p2)[i := (chans p2 ! i)\<lparr>sink_task := LoopHead\<rparr>]\<rparr>)"
proof -
  note f = proxy_send_cmd_frame [OF assms(1)]
  have w: "wrte_sent r p2 \<le> wrte_sent r p + (if r = remote_id (chans p ! i) then 1 else 0)"
      "wrte_sent r p \<le> wrte_sent r p2" for r
    using proxy_send_cmd_wrte [OF assms(1), of r] by auto
  have w': "r \<noteq> remote_id (chans p ! i) \<Longrightarrow> wrte_sent r p2 = wrte_sent r p" for r
    using w [of r] by simp
  have k: "okay_rcvd r p2 = okay_rcvd r p" for r
    by (rule proxy_send_cmd_okay [OF assms(1)])
  show ?thesis
    unfolding channel_step_def
    using assms(2,3) w [of "remote_id (chans p ! i)"]
    by (simp add: f w' k credit_ok_def)
qed

lemma channel_step_acquired:
  assumes "i < length (chans p)" "ready_to_send (chans p ! i) \<noteq> 0"
    "sink_task (chans p ! i) \<noteq> Reading" "sink_task (chans p ! i) \<noteq> Done"
  shows "channel_step i p (acquired i p)"
proof -
  let ?ch = "chans p ! i"
  let ?p1 = "p\<lparr>chans := (chans p)[i := ?ch\<lparr>ready_to_send := ready_to_send ?ch - 1\<rparr>]\<rparr>"
  have a: "channel_step i p ?p1"
    using assms by (auto simp: channel_step_def credit_ok_def)
  have l: "i < length (chans ?p1)" using assms(1) by simp
  show ?thesis
  proof (cases "closed ?ch")
    case True
    then have "acquired i p = finish_sink i ?p1" by (simp add: acquired_def Let_def)
    then show ?thesis using channel_step_trans [OF a channel_step_finish_sink [OF l]] by simp
  next
    case False
    then have "acquired i p = p\<lparr>chans := (chans p)[i := ?ch\<lparr>ready_to_send := ready_to_send ?ch - 1,
        sink_task := Reading\<rparr>]\<rparr>"
      using assms(1) by (simp add: acquired_def Let_def)
    then show ?thesis
      using assms False by (auto simp: channel_step_def credit_ok_def)
  qed
qed

lemma channel_step_sink:
  assumes "i < length (chans p)"
  shows "channel_step i p (sink i k p)"
proof (cases "sink_task (chans p ! i)")
  case LoopHead
  show ?thesis
  proof (cases "closed (chans p ! i)")
    case True
    then show ?thesis using LoopHead channel_step_finish_sink [OF assms] by (simp add: sink_def)
  next
    case False
    show ?thesis
    proof (cases "ready_to_send (chans p ! i) = 0")
      case True
      then show ?thesis
        using LoopHead False channel_step_task [OF assms, of Acquire] by (simp add: sink_def)
    next
      case nz: False
      then show ?thesis
        using LoopHead False channel_step_acquired [OF assms nz] by (simp add: sink_def)
    qed
  qed
next
  case Acquire
  show ?thesis
  proof (cases "ready_to_send (chans p ! i) = 0")
    case True
    then show ?thesis using Acquire by (simp add: sink_def channel_step_refl)
  next
    case nz: False
    then show ?thesis
      using Acquire channel_step_acquired [OF assms nz] by (simp add: sink_def)
  qed
next
  case Reading
  let ?ch = "chans p ! i"
  obtain res s where rd: "read max_data_len k (sock ?ch) = (res, s)" by force
  let ?p1 = "p\<lparr>chans := (chans p)[i := ?ch\<lparr>sock := s\<rparr>]\<rparr>"
  have a: "channel_step i p ?p1" by (rule channel_step_sock [OF assms])
  have l: "i < length (chans ?p1)" using assms by simp
  have fin: "channel_step i p (finish_sink i ?p1)"
    by (rule channel_step_trans [OF a channel_step_finish_sink [OF l]])
  show ?thesis
  proof (cases res)
    case (Inl e)
    then show ?thesis using Reading rd fin by (simp add: sink_def)
  next
    case (Inr data)
    show ?thesis
    proof (cases "data = []")
      case True
      have "channel_step i ?p1 (?p1\<lparr>chans := (chans ?p1)[i := (chans ?p1 ! i)\<lparr>sink_task := Sleeping\<rparr>]\<rparr>)"
        by (rule channel_step_task [OF l]) (use assms Reading in simp_all)
      from channel_step_trans [OF a this] fin show ?thesis
        using Reading rd Inr True by (simp add: sink_def Let_def)
    next
      case False
      obtain e2 p2 where s: "proxy_send_cmd (ascii ''WRTE'') (remote_id ?ch) (local_id ?ch) data ?p1
          = (e2, p2)" by force
      have s': "proxy_send_cmd (ascii ''WRTE'') (remote_id (chans ?p1 ! i)) (local_id ?ch) data ?p1
          = (e2, p2)" using s assms by simp
      let ?q = "p2\<lparr>chans := (chans p2)[i := (chans p2 ! i)\<lparr>sink_task := LoopHead\<rparr>]\<rparr>"
      have "channel_step i ?p1 ?q"
        by (rule channel_step_wrte [OF s' l]) (use assms Reading in simp)
      then have b: "channel_step i p ?q" by (rule channel_step_trans [OF a])
      have l2: "i < length (chans p2)" using proxy_send_cmd_frame(1) [OF s] l by simp
      then have lq: "i < length (chans ?q)" by simp
      have c: "channel_step i p (finish_sink i p2)"
        using channel_step_trans [OF b channel_step_finish_sink [OF lq]]
        by (simp only: finish_sink_task [OF l2])
      show ?thesis
      proof (cases e2)
        case None
        then show ?thesis using Reading rd Inr False s b by (simp add: sink_def Let_def)
      next
        case (Some x)
        then show ?thesis using Reading rd Inr False s c by (simp add: sink_def Let_def)
      qed
    qed
  qed
next
  case Sleeping
  then show ?thesis
    using channel_step_task [OF assms, of LoopHead] by (simp add: sink_def)
next
  case Done
  then show ?thesis by (simp add: sink_def channel_step_refl)
qed

lemma channel_step_host_reset:
  assumes "i < length (chans p)"
  shows "channel_step i p
           (p\<lparr>chans := (chans p)[i := (chans p ! i)\<lparr>sock := (sock (chans p ! i))\<lparr>alive := False\<rparr>\<rparr>]\<rparr>)"
  by (rule channel_step_sock [OF assms])

lemma ids_distinct:
  assumes "ids_ok p" "i < length (chans p)" "j < length (chans p)" "i \<noteq> j"
  shows "remote_id (chans p ! i) \<noteq> remote_id (chans p ! j)"
proof -
  have "distinct (map remote_id (chans p))"
    using assms(1) by (simp add: ids_ok_def strict_sorted_iff)
  then show ?thesis
    using assms(2-4) nth_eq_iff_index_eq [of "map remote_id (chans p)" i j] by simp
qed

lemma ids_below:
  assumes "ids_ok p" "i < length (chans p)"
  shows "1 \<le> remote_id (chans p ! i)" "remote_id (chans p ! i) < next_remote_id p"
  using assms by (simp_all add: ids_ok_def list_all_length)

lemma inv_channel_step:
  assumes "inv p" "i < length (chans p)" "channel_step i p p'"
  shows "inv p'"
proof -
  note cs = assms(3) [unfolded channel_step_def]
  have len: "length (chans p') = length (chans p)" using cs by simp
  have oth: "j \<noteq> i \<Longrightarrow> chans p' ! j = chans p ! j" for j using cs by simp
  have rid: "remote_id (chans p' ! j) = remote_id (chans p ! j)" for j
    using cs by (cases "j = i") simp_all
  have ids: "map remote_id (chans p') = map remote_id (chans p)"
    by (rule nth_equalityI) (simp_all add: len rid)
  have I: "ids_ok p" "table_ok p" "open_in_table p" using assms(1) by (simp_all add: inv_def)
  have C: "j < length (chans p) \<Longrightarrow> credit_ok p (chans p ! j)" for j
    using assms(1) by (simp add: inv_def list_all_length)
  have E: "j < length (chans p) \<Longrightarrow> closed (chans p ! j) \<Longrightarrow> sink_task (chans p ! j) = Done" for j
    using assms(1) by (simp add: inv_def list_all_length)
  have F: "next_remote_id p \<le> r \<Longrightarrow> wrte_sent r p = 0" for r
    using assms(1) by (simp add: inv_def)
  have G: "stage p \<noteq> Returned \<Longrightarrow> \<not> closing (peer p)"
    using assms(1) by (simp add: inv_def)
  have H: "stage_ok p"
    using assms(1) by (simp add: inv_def)
  have new: "(closed (chans p' ! i) \<longrightarrow> sink_task (chans p' ! i) = Done) \<and> credit_ok p' (chans p' ! i)"
    using cs C [OF assms(2)] E [OF assms(2)] by blast
  have 1: "ids_ok p'"
  proof -
    have "list_all (\<lambda>ch. 1 \<le> remote_id ch \<and> remote_id ch < next_remote_id p') (chans p')"
      unfolding list_all_length
      using ids_below [OF I(1)] cs by (simp add: rid)
    then show ?thesis using I(1) cs by (simp add: ids_ok_def ids)
  qed
  have 2: "table_ok p'"
    using I(2) cs by (simp add: table_ok_def rid)
  have 3: "open_in_table p'"
    unfolding open_in_table_def
  proof (intro allI impI)
    fix j assume j: "j < length (chans p')" "\<not> closed (chans p' ! j)"
    have "\<not> closed (chans p ! j)"
      using j(2) cs by (cases "j = i") auto
    then have "streams p (remote_id (chans p ! j)) = Some j"
      using I(3) j(1) len by (simp add: open_in_table_def)
    then show "streams p' (remote_id (chans p' ! j)) = Some j"
      using cs by (simp add: rid)
  qed
  have 4: "list_all (credit_ok p') (chans p')"
    unfolding list_all_length
  proof (intro allI impI)
    fix j assume j: "j < length (chans p')"
    show "credit_ok p' (chans p' ! j)"
    proof (cases "j = i")
      case True
      then show ?thesis using new by simp
    next
      case False
      have ne: "remote_id (chans p ! j) \<noteq> remote_id (chans p ! i)"
        using ids_distinct [OF I(1) _ assms(2) False] j len by simp
      have "wrte_sent (remote_id (chans p ! j)) p' = wrte_sent (remote_id (chans p ! j)) p"
        using cs ne by simp
      moreover have "okay_rcvd (remote_id (chans p ! j)) p \<le> okay_rcvd (remote_id (chans p ! j)) p'"
        using cs by simp
      ultimately have "credit_ok p' (chans p ! j)"
        using C [of j] j len by (simp add: credit_ok_def)
      then show ?thesis using oth [OF False] by simp
    qed
  qed
  have 5: "list_all (\<lambda>ch. closed ch \<longrightarrow> sink_task ch = Done) (chans p')"
    unfolding list_all_length
  proof (intro allI impI)
    fix j assume j: "j < length (chans p')" "closed (chans p' ! j)"
    show "sink_task (chans p' ! j) = Done"
    proof (cases "j = i")
      case True
      then show ?thesis using new j(2) by simp
    next
      case False
      then show ?thesis using E [of j] j len oth [OF False] by simp
    qed
  qed
  have 6: "\<forall>r \<ge> next_remote_id p'. wrte_sent r p' = 0"
  proof (intro allI impI)
    fix r assume "next_remote_id p' \<le> r"
    then have r: "next_remote_id p \<le> r" using cs by simp
    then have "r \<noteq> remote_id (chans p ! i)"
      using ids_below(2) [OF I(1) assms(2)] by simp
    then show "wrte_sent r p' = 0" using cs F [OF r] by simp
  qed
  have 7: "stage p' \<noteq> Returned \<longrightarrow> \<not> closing (peer p')"
    using G cs by simp
  have cl: "closed (chans p ! j) \<Longrightarrow> closed (chans p' ! j)" for j
    using cs by (cases "j = i") simp_all
  have 8: "stage_ok p'"
    using H cs cl by (auto simp: stage_ok_def split: stage.splits option.splits)
  show ?thesis
    unfolding inv_def using 1 2 3 4 5 6 7 8 by blast
qed

lemma readexactly_conn:
  assumes "readexactly n c = (res, r)"
  shows "out r = out c" "closing r = closing c" "alive r = alive c"
  using assms by (auto simp: readexactly_def split: if_splits)

lemma recv_cmd_conn:
  assumes "recv_cmd c = (res, r)"
  shows "out r = out c \<and> closing r = closing c \<and> alive r = alive c"
proof -
  obtain r1 res1 where r1: "readexactly 24 c = (res1, r1)" by force
  note a = readexactly_conn [OF r1]
  show ?thesis
  proof (cases res1)
    case (Inl e)
    then show ?thesis using assms r1 a by (simp add: recv_cmd_def)
  next
    case (Inr header)
    show ?thesis
    proof (cases "\<exists>cmd_id arg0 arg1 data_len crc magic.
        unpack_6I header = Inr [cmd_id, arg0, arg1, data_len, crc, magic]
        \<and> cmd_id = magic XOR 0xFFFFFFFF")
      case True
      then obtain cmd_id arg0 arg1 data_len crc magic where
        u: "unpack_6I header = Inr [cmd_id, arg0, arg1, data_len, crc, magic]"
        "cmd_id = magic XOR 0xFFFFFFFF" by blast
      obtain res2 r2 where r2: "readexactly data_len r1 = (res2, r2)" by force
      have "r = r2" using assms r1 Inr u r2 by (simp add: recv_cmd_def split: sum.splits)
      then show ?thesis using readexactly_conn [OF r2] a by simp
    next
      case False
      then have "r = r1"
        using assms r1 Inr
        by (auto simp: recv_cmd_def split: sum.splits list.splits if_splits prod.splits)
      then show ?thesis using a by simp
    qed
  qed
qed

lemma credit_ok_fields [simp]:
  "credit_ok (p\<lparr>next_remote_id := n\<rparr>) = credit_ok p"
  "credit_ok (p\<lparr>streams := t\<rparr>) = credit_ok p"
  "credit_ok (p\<lparr>chans := cs\<rparr>) = credit_ok p"
  "credit_ok (p\<lparr>stage := st\<rparr>) = credit_ok p"
  by (simp_all add: fun_eq_iff credit_ok_def wrte_sent_def okay_rcvd_def)

lemma wrte_sent_fields [simp]:
  "wrte_sent r (p\<lparr>next_remote_id := n\<rparr>) = wrte_sent r p"
  "wrte_sent r (p\<lparr>streams := t\<rparr>) = wrte_sent r p"
  "wrte_sent r (p\<lparr>stage := st\<rparr>) = wrte_sent r p"
  "wrte_sent r (p\<lparr>rcvd := fs\<rparr>) = wrte_sent r p"
  by (simp_all add: wrte_sent_def)

lemma stage_ok_fields [simp]:
  "stage_ok (p\<lparr>next_remote_id := n\<rparr>) = stage_ok p"
  "stage_ok (p\<lparr>peer := w\<rparr>) = stage_ok p"
  "stage_ok (p\<lparr>rcvd := fs\<rparr>) = stage_ok p"
  by (simp_all add: stage_ok_def split: stage.splits option.splits)

lemma stage_ok_simple [simp]:
  "stage_ok (p\<lparr>stage := Dispatching\<rparr>)" "stage_ok (p\<lparr>stage := Returned\<rparr>)"
  "stage p = Dispatching \<Longrightarrow> stage_ok p" "stage p = Handshake \<Longrightarrow> stage_ok p"
  by (simp_all add: stage_ok_def)

lemma inv_mono:
  assumes "inv p" "chans p' = chans p" "streams p' = streams p"
    "next_remote_id p' = next_remote_id p" "stage p' \<noteq> Returned \<longrightarrow> \<not> closing (peer p')"
    "\<And>r. wrte_sent r p' = wrte_sent r p" "\<And>r. okay_rcvd r p \<le> okay_rcvd r p'"
    "stage p' = stage p \<or> stage p' = Dispatching \<or> stage p' = Returned"
  shows "inv p'"
proof -
  have "credit_ok p ch \<Longrightarrow> credit_ok p' ch" for ch
    using assms(6) [of "remote_id ch"] assms(7) [of "remote_id ch"] by (simp add: credit_ok_def)
  then have c: "list_all (credit_ok p) (chans p) \<Longrightarrow> list_all (credit_ok p') (chans p)"
    by (simp add: list_all_iff)
  have "stage_ok p \<Longrightarrow> stage_ok p'"
    using assms(2,3,8) by (auto simp: stage_ok_def split: stage.splits option.splits)
  then show ?thesis
    using assms(1-7) c unfolding inv_def ids_ok_def table_ok_def open_in_table_def by simp
qed

lemma inv_send:
  assumes "inv p" "proxy_send_cmd cmd arg0 arg1 data p = (e, p')" "cmd \<noteq> ascii ''WRTE''"
  shows "inv p'"
proof (rule inv_mono [OF assms(1)])
  note f = proxy_send_cmd_frame [OF assms(2)]
  show "chans p' = chans p" "streams p' = streams p" "next_remote_id p' = next_remote_id p"
    by (simp_all add: f)
  show "stage p' \<noteq> Returned \<longrightarrow> \<not> closing (peer p')"
    using assms(1) by (simp add: f inv_def)
  show "wrte_sent r p' = wrte_sent r p" for r
    using proxy_send_cmd_wrte [OF assms(2), of r] assms(3) by simp
  show "okay_rcvd r p \<le> okay_rcvd r p'" for r
    by (simp add: proxy_send_cmd_okay [OF assms(2)])
  show "stage p' = stage p \<or> stage p' = Dispatching \<or> stage p' = Returned"
    by (simp add: f)
qed

text \<open>Taking a frame from the client: the reader advances and the history grows.\<close>

lemma inv_recv:
  assumes "inv p" "recv_cmd (peer p) = (res, r)"
  shows "inv (p\<lparr>peer := r\<rparr>)" "inv (p\<lparr>peer := r, rcvd := rcvd p @ [f]\<rparr>)"
proof -
  note c = recv_cmd_conn [OF assms(2)]
  show "inv (p\<lparr>peer := r\<rparr>)"
    by (rule inv_mono [OF assms(1)]) (use assms(1) c in \<open>simp_all add: wrte_sent_def inv_def\<close>)
  show "inv (p\<lparr>peer := r, rcvd := rcvd p @ [f]\<rparr>)"
    by (rule inv_mono [OF assms(1)])
      (use assms(1) c in \<open>simp_all add: wrte_sent_def okay_rcvd_def inv_def\<close>)
qed

lemma inv_returned:
  assumes "inv p"
  shows "inv (p\<lparr>peer := close_conn (peer p), stage := Returned\<rparr>)"
  by (rule inv_mono [OF assms]) (simp_all add: wrte_sent_def okay_rcvd_def close_conn_def)

lemma inv_stage:
  assumes "inv p" "stage p \<noteq> Returned" "stage_ok (p\<lparr>stage := s\<rparr>)"
  shows "inv (p\<lparr>stage := s\<rparr>)"
  using assms unfolding inv_def ids_ok_def table_ok_def open_in_table_def by simp

text \<open>The id counter advances.\<close>

lemma inv_next:
  assumes "inv p"
  shows "inv (p\<lparr>next_remote_id := next_remote_id p + 1\<rparr>)"
proof -
  have "list_all (\<lambda>ch. 1 \<le> remote_id ch \<and> remote_id ch < next_remote_id p) (chans p)
        \<Longrightarrow> list_all (\<lambda>ch. 1 \<le> remote_id ch \<and> remote_id ch < next_remote_id p + 1) (chans p)"
    by (auto simp: list_all_iff)
  then show ?thesis
    using assms
    unfolding inv_def ids_ok_def table_ok_def open_in_table_def
    by simp
qed

text \<open>A new channel enters the table under the id the counter had.\<close>

lemma inv_open:
  assumes "inv p" "stage p = Dispatching"
  shows "inv (p\<lparr>next_remote_id := next_remote_id p + 1,
                chans := chans p @ [ProxyChannel d lid (next_remote_id p) s],
                streams := (streams p)(next_remote_id p \<mapsto> length (chans p))\<rparr>)"
proof -
  let ?n = "next_remote_id p"
  let ?c = "ProxyChannel d lid ?n s"
  let ?q = "p\<lparr>next_remote_id := ?n + 1, chans := chans p @ [?c],
              streams := (streams p)(?n \<mapsto> length (chans p))\<rparr>"
  have c: "remote_id ?c = ?n" "\<not> closed ?c" "ready_to_send ?c = 1" "sink_task ?c = LoopHead"
    by (simp_all add: ProxyChannel_def release_def)
  have I: "ids_ok p" "table_ok p" "open_in_table p" using assms(1) by (simp_all add: inv_def)
  have C: "list_all (credit_ok p) (chans p)"
    and E: "list_all (\<lambda>ch. closed ch \<longrightarrow> sink_task ch = Done) (chans p)"
    and F: "\<And>r. ?n \<le> r \<Longrightarrow> wrte_sent r p = 0"
    and G: "stage p \<noteq> Returned \<longrightarrow> \<not> closing (peer p)"
    using assms(1) by (simp_all add: inv_def)
  have below: "j < length (chans p) \<Longrightarrow> remote_id (chans p ! j) < ?n" for j
    using ids_below(2) [OF I(1)] by simp
  have one: "1 \<le> ?n" using I(1) by (simp add: ids_ok_def)
  have 1: "ids_ok ?q"
  proof -
    have "\<forall>x \<in> set (map remote_id (chans p)). x < ?n"
      using I(1) by (auto simp: ids_ok_def list_all_iff)
    then have "sorted_wrt (<) (map remote_id (chans p) @ [?n])"
      using I(1) by (simp add: sorted_wrt_append ids_ok_def)
    moreover have "list_all (\<lambda>ch. 1 \<le> remote_id ch \<and> remote_id ch < ?n + 1) (chans p)"
      using I(1) by (auto simp: ids_ok_def list_all_iff)
    ultimately show ?thesis using one by (simp add: ids_ok_def c)
  qed
  have 2: "table_ok ?q"
    unfolding table_ok_def
  proof (intro allI impI)
    fix r i assume a: "streams ?q r = Some i"
    show "i < length (chans ?q) \<and> remote_id (chans ?q ! i) = r"
    proof (cases "r = ?n")
      case True
      then show ?thesis using a by (auto simp: c)
    next
      case False
      then have "streams p r = Some i" using a by simp
      then have "i < length (chans p) \<and> remote_id (chans p ! i) = r"
        using I(2) by (simp add: table_ok_def)
      then show ?thesis by (simp add: nth_append)
    qed
  qed
  have 3: "open_in_table ?q"
    unfolding open_in_table_def
  proof (intro allI impI)
    fix i assume a: "i < length (chans ?q)" "\<not> closed (chans ?q ! i)"
    show "streams ?q (remote_id (chans ?q ! i)) = Some i"
    proof (cases "i = length (chans p)")
      case True
      then show ?thesis by (simp add: c)
    next
      case False
      then have i: "i < length (chans p)" using a(1) by simp
      then have "streams p (remote_id (chans p ! i)) = Some i"
        using a(2) I(3) by (simp add: open_in_table_def nth_append)
      then show ?thesis using i below [OF i] by (simp add: nth_append)
    qed
  qed
  have 4: "list_all (credit_ok ?q) (chans ?q)"
  proof -
    have "credit_ok p ?c"
      using F [of ?n] by (simp add: credit_ok_def c)
    then show ?thesis using C by simp
  qed
  have 5: "list_all (\<lambda>ch. closed ch \<longrightarrow> sink_task ch = Done) (chans ?q)"
    using E by (simp add: c)
  have 6: "\<forall>r \<ge> next_remote_id ?q. wrte_sent r ?q = 0"
    using F by simp
  have 7: "stage ?q \<noteq> Returned \<longrightarrow> \<not> closing (peer ?q)"
    using G by simp
  have 8: "stage_ok ?q"
    using assms(2) by simp
  show ?thesis
    unfolding inv_def using 1 2 3 4 5 6 7 8 by blast
qed

text \<open>An \<open>OKAY\<close> frame for a channel in the table: the history and the semaphore grow.\<close>

lemma channel_step_okay:
  assumes "i < length (chans p)" "remote_id (chans p ! i) = rid"
    "out r = out (peer p)" "closing r = closing (peer p)"
  shows "channel_step i p
           (ready i (p\<lparr>peer := r, rcvd := rcvd p @ [(ascii ''OKAY'', lid, rid, data)]\<rparr>))"
  using assms
  by (simp add: channel_step_def ready_def release_def credit_ok_def wrte_sent_def okay_rcvd_def)

text \<open>Deleting the entry of a closed channel.\<close>

lemma inv_del:
  assumes "inv p" "streams p rid = Some i" "closed (chans p ! i)" "stage p = Dispatching"
  shows "inv (p\<lparr>streams := (streams p)(rid := None)\<rparr>)"
proof -
  let ?q = "p\<lparr>streams := (streams p)(rid := None)\<rparr>"
  have I: "ids_ok p" "table_ok p" "open_in_table p" using assms(1) by (simp_all add: inv_def)
  have i: "i < length (chans p)" "remote_id (chans p ! i) = rid"
    using I(2) assms(2) by (simp_all add: table_ok_def)
  have 2: "table_ok ?q"
    using I(2) by (simp add: table_ok_def)
  have 3: "open_in_table ?q"
    unfolding open_in_table_def
  proof (intro allI impI)
    fix j assume j: "j < length (chans ?q)" "\<not> closed (chans ?q ! j)"
    then have ne: "j \<noteq> i" using assms(3) by auto
    have "remote_id (chans p ! j) \<noteq> rid"
      using ids_distinct [OF I(1) _ i(1) ne] j(1) i(2) by simp
    moreover have "streams p (remote_id (chans p ! j)) = Some j"
      using I(3) j by (simp add: open_in_table_def)
    ultimately show "streams ?q (remote_id (chans ?q ! j)) = Some j" by simp
  qed
  have 8: "stage_ok ?q"
    using assms(4) by simp
  show ?thesis
    using assms(1) 2 3 8 unfolding inv_def by (simp add: ids_ok_def)
qed

text \<open>The task of \<open>run\<close> calls \<open>close\<close>.\<close>

lemma inv_close_await:
  assumes "inv p" "i < length (chans p)" "stage p = Dispatching"
    "case d of Some rid \<Rightarrow> streams p rid = Some i | None \<Rightarrow> True"
  shows "inv (close_await d i p)"
proof (cases "closed (chans p ! i)")
  case True
  show ?thesis
  proof (cases d)
    case None
    then show ?thesis using True assms(1) by (simp add: close_await_def after_close_def)
  next
    case (Some rid)
    then have "streams p rid = Some i" using assms(4) by simp
    from inv_del [OF assms(1) this True assms(3)] show ?thesis
      using True Some by (simp add: close_await_def after_close_def)
  qed
next
  case False
  let ?q = "close_begin i p"
  have st: "channel_step i p ?q" by (rule channel_step_close_begin [OF assms(2) False])
  have iq: "inv ?q" by (rule inv_channel_step [OF assms(1,2) st])
  have f: "stage ?q = stage p" "streams ?q = streams p" "length (chans ?q) = length (chans p)"
    using st by (simp_all add: channel_step_def)
  have c: "closed (chans ?q ! i)" using assms(2) by (simp add: close_begin_unfold)
  have "stage_ok (?q\<lparr>stage := Closing i d\<rparr>)"
    using f c assms(2,4) by (simp add: stage_ok_def split: option.splits)
  from inv_stage [OF iq _ this] show ?thesis
    using False f assms(3) by (simp add: close_await_def)
qed

lemma inv_write_end:
  assumes "inv p" "i < length (chans p)" "stage p = Dispatching"
  shows "inv (write_end e i p)"
proof (cases e)
  case (Some x)
  then show ?thesis
    using inv_close_await [OF assms, of None] by (simp add: write_end_def)
next
  case None
  obtain e2 p2 where s: "proxy_send_cmd (ascii ''OKAY'') (remote_id (chans p ! i))
      (local_id (chans p ! i)) [] p = (e2, p2)" by force
  have i2: "inv p2"
    using inv_send [OF assms(1) s] by (simp add: ascii_tags [symmetric])
  note f = proxy_send_cmd_frame [OF s]
  show ?thesis
  proof (cases e2)
    case None': None
    then show ?thesis using None s i2 by (simp add: write_end_def)
  next
    case (Some x)
    have "inv (close_await None i p2)"
      by (rule inv_close_await [OF i2]) (use assms f in simp_all)
    then show ?thesis using None Some s by (simp add: write_end_def)
  qed
qed

lemma inv_chan_write:
  assumes "inv p" "i < length (chans p)" "stage p = Dispatching"
  shows "inv (chan_write i data p)"
proof -
  let ?p1 = "p\<lparr>chans := (chans p)[i := sock_write data (chans p ! i)]\<rparr>"
  have i1: "inv ?p1"
    by (rule inv_channel_step [OF assms(1,2) channel_step_sock_write [OF assms(2)]])
  have l1: "i < length (chans ?p1)" "stage ?p1 = Dispatching" using assms by simp_all
  show ?thesis
  proof (cases "sock_drain (chans ?p1 ! i)")
    case None
    have "stage_ok (?p1\<lparr>stage := Draining i\<rparr>)" using assms(2) by (simp add: stage_ok_def)
    from inv_stage [OF i1 _ this] show ?thesis
      using None l1 by (simp add: chan_write_def Let_def)
  next
    case (Some e)
    then show ?thesis
      using inv_write_end [OF i1 l1] by (simp add: chan_write_def Let_def)
  qed
qed

lemma inv_run_loop:
  assumes "inv p" "run_loop host p = (e, p')" "stage p = Dispatching"
  shows "inv p'"
proof -
  obtain res r where rc: "recv_cmd (peer p) = (res, r)" by force
  note conn = recv_cmd_conn [OF rc]
  show ?thesis
  proof (cases res)
    case (Inl x)
    then have "p' = p\<lparr>peer := r\<rparr>" using assms(2) rc by (simp add: run_loop_def)
    then show ?thesis using inv_recv(1) [OF assms(1) rc] by simp
  next
    case (Inr f)
    obtain cmd lid rid data where f: "f = (cmd, lid, rid, data)" by (cases f) auto
    let ?p1 = "p\<lparr>peer := r, rcvd := rcvd p @ [(cmd, lid, rid, data)]\<rparr>"
    have i1: "inv ?p1" by (rule inv_recv(2) [OF assms(1) rc])
    have t1: "table_ok ?p1" using i1 by (simp add: inv_def)
    have s1: "stage ?p1 = Dispatching" using assms(3) by simp
    note rl = assms(2) [unfolded run_loop_def rc Inr f, simplified]
    consider (op) "cmd = ascii ''OPEN''" | (wr) "cmd = ascii ''WRTE''" | (ok) "cmd = ascii ''OKAY''"
      | (cl) "cmd = ascii ''CLSE''"
      | (other) "cmd \<noteq> ascii ''OPEN''" "cmd \<noteq> ascii ''WRTE''" "cmd \<noteq> ascii ''OKAY''"
          "cmd \<noteq> ascii ''CLSE''"
      by blast
    then show ?thesis
    proof cases
      case op
      show ?thesis
      proof (cases "decode (rstrip_nul data)")
        case (Inl x)
        then have "p' = ?p1" using rl op by simp
        then show ?thesis using i1 by simp
      next
        case (Inr destination)
        let ?n = "next_remote_id ?p1"
        let ?p2 = "?p1\<lparr>next_remote_id := ?n + 1\<rparr>"
        have i2: "inv ?p2" using inv_next [OF i1] by simp
        show ?thesis
        proof (cases "open_client_stream host (device_id p) destination")
          case (Inl x)
          then have "proxy_send_cmd (ascii ''CLSE'') lid 0 [] ?p2 = (e, p')"
            using rl op Inr by (simp add: Let_def)
          from inv_send [OF i2 this] show ?thesis by (simp add: ascii_tags [symmetric])
        next
          case s: (Inr s)
          let ?p3 = "?p1\<lparr>next_remote_id := ?n + 1,
                        chans := chans ?p1 @ [ProxyChannel destination lid ?n s],
                        streams := (streams ?p1)(?n \<mapsto> length (chans ?p1))\<rparr>"
          have i3: "inv ?p3" by (rule inv_open [OF i1 s1])
          obtain e4 p4 where s4: "proxy_send_cmd (ascii ''OKAY'') ?n lid [] ?p3 = (e4, p4)"
            by force
          have i4: "inv p4"
            using inv_send [OF i3 s4] by (simp add: ascii_tags [symmetric])
          show ?thesis
          proof (cases e4)
            case None
            then have "p' = p4" using rl op Inr s s4 by (simp add: Let_def)
            then show ?thesis using i4 by simp
          next
            case (Some x)
            then have "proxy_send_cmd (ascii ''CLSE'') lid 0 [] p4 = (e, p')"
              using rl op Inr s s4 by (simp add: Let_def)
            from inv_send [OF i4 this] show ?thesis by (simp add: ascii_tags [symmetric])
          qed
        qed
      qed
    next
      case wr
      show ?thesis
      proof (cases "streams p rid")
        case None
        then have "p' = ?p1" using rl wr by (simp add: ascii_tags ascii_tags [symmetric])
        then show ?thesis using i1 by simp
      next
        case (Some i)
        then have i: "i < length (chans ?p1)" using t1 by (simp add: table_ok_def)
        have "p' = chan_write i data ?p1"
          using rl wr Some by (simp add: ascii_tags ascii_tags [symmetric])
        then show ?thesis using inv_chan_write [OF i1 i s1] by simp
      qed
    next
      case ok
      show ?thesis
      proof (cases "streams p rid")
        case None
        then have "p' = ?p1" using rl ok by (simp add: ascii_tags ascii_tags [symmetric])
        then show ?thesis using i1 by simp
      next
        case (Some i)
        have t: "table_ok p" using assms(1) by (simp add: inv_def)
        have i: "i < length (chans p)" "remote_id (chans p ! i) = rid"
          using t Some by (simp_all add: table_ok_def)
        have "p' = ready i ?p1"
          using rl ok Some by (simp add: ascii_tags ascii_tags [symmetric])
        moreover have "channel_step i p (ready i ?p1)"
          unfolding ok using i conn by (intro channel_step_okay) simp_all
        ultimately show ?thesis using inv_channel_step [OF assms(1) i(1)] by simp
      qed
    next
      case cl
      show ?thesis
      proof (cases "streams p rid")
        case None
        then have "proxy_send_cmd (ascii ''CLSE'') lid 0 [] ?p1 = (e, p')"
          using rl cl by (simp add: ascii_tags ascii_tags [symmetric])
        from inv_send [OF i1 this] show ?thesis by (simp add: ascii_tags [symmetric])
      next
        case (Some i)
        then have i: "i < length (chans ?p1)" using t1 by (simp add: table_ok_def)
        have "p' = close_await (Some rid) i ?p1"
          using rl cl Some by (simp add: ascii_tags ascii_tags [symmetric])
        moreover have "inv (close_await (Some rid) i ?p1)"
          by (rule inv_close_await [OF i1 i s1]) (simp add: Some)
        ultimately show ?thesis by simp
      qed
    next
      case other
      then have "p' = ?p1" using rl by simp
      then show ?thesis using i1 by simp
    qed
  qed
qed

lemma inv_run_handshake:
  assumes "inv p" "run_handshake p = (e, p')"
  shows "inv p'"
proof -
  obtain res r where rc: "recv_cmd (peer p) = (res, r)" by force
  show ?thesis
  proof (cases res)
    case (Inl x)
    then have "p' = p\<lparr>peer := r\<rparr>" using assms(2) rc by (simp add: run_handshake_def)
    then show ?thesis using inv_recv(1) [OF assms(1) rc] by simp
  next
    case (Inr f)
    obtain cmd arg0 arg1 data where f: "f = (cmd, arg0, arg1, data)" by (cases f) auto
    let ?p1 = "p\<lparr>peer := r, rcvd := rcvd p @ [(cmd, arg0, arg1, data)]\<rparr>"
    have i1: "inv ?p1" by (rule inv_recv(2) [OF assms(1) rc])
    note rh = assms(2) [unfolded run_handshake_def rc Inr f, simplified]
    show ?thesis
    proof (cases "cmd = ascii ''CNXN''")
      case True
      then have "proxy_send_cmd (ascii ''CNXN'') protocol_version max_data_len
                   (ascii ''device::'' @ device_name ?p1 @ [0]) ?p1 = (e, p')"
        using rh by (simp add: Let_def)
      from inv_send [OF i1 this] show ?thesis by (simp add: ascii_tags [symmetric])
    next
      case False
      then have "p' = ?p1" using rh by (simp add: Let_def)
      then show ?thesis using i1 by simp
    qed
  qed
qed

lemma inv_handle_connection:
  assumes "inv p"
  shows "inv (handle_connection host p)"
proof (cases "stage p")
  case Handshake
  obtain e p1 where r: "run_handshake p = (e, p1)" by force
  have i1: "inv p1" by (rule inv_run_handshake [OF assms r])
  have st: "stage p1 = Handshake"
    using r Handshake
    by (auto simp: run_handshake_def Let_def proxy_send_cmd_def split: prod.splits sum.splits
        if_splits)
  show ?thesis
    using Handshake r inv_returned [OF i1] inv_stage [OF i1, of Dispatching] st
    by (cases e) (simp_all add: handle_connection_def)
next
  case Dispatching
  obtain e p1 where r: "run_loop host p = (e, p1)" by force
  have i1: "inv p1" by (rule inv_run_loop [OF assms r Dispatching])
  show ?thesis
    using Dispatching r inv_returned [OF i1] i1
    by (cases e) (simp_all add: handle_connection_def)
next
  case (Draining i)
  have i: "i < length (chans p)" using assms Draining by (simp add: inv_def stage_ok_def)
  have i1: "inv (p\<lparr>stage := Dispatching\<rparr>)"
    by (rule inv_stage [OF assms]) (simp_all add: Draining)
  show ?thesis
  proof (cases "sock_drained (chans p ! i)")
    case None
    then show ?thesis using Draining assms by (simp add: handle_connection_def)
  next
    case (Some x)
    have "inv (write_end x i (p\<lparr>stage := Dispatching\<rparr>))"
      by (rule inv_write_end [OF i1]) (use i in simp_all)
    then show ?thesis using Draining Some by (simp add: handle_connection_def)
  qed
next
  case (Closing i d)
  have i: "i < length (chans p)" "closed (chans p ! i)"
      "case d of Some rid \<Rightarrow> streams p rid = Some i | None \<Rightarrow> True"
    using assms Closing by (simp_all add: inv_def stage_ok_def)
  show ?thesis
  proof (cases "wait_closed (chans p ! i)")
    case None
    then show ?thesis using Closing assms by (simp add: handle_connection_def)
  next
    case (Some x)
    obtain e1 p1 where c: "close_end i p = (e1, p1)" by force
    note st = channel_step_close_end [OF c]
    have i1: "inv p1" by (rule inv_channel_step [OF assms i(1) st])
    have f: "stage p1 = stage p" "streams p1 = streams p" "closed (chans p1 ! i)"
      using st i(2) by (simp_all add: channel_step_def)
    show ?thesis
    proof (cases e1)
      case e: (Some y)
      then show ?thesis
        using Closing Some c inv_returned [OF i1] by (simp add: handle_connection_def)
    next
      case None
      have i2: "inv (p1\<lparr>stage := Dispatching\<rparr>)"
        by (rule inv_stage [OF i1]) (simp_all add: f Closing)
      have "inv (after_close d (p1\<lparr>stage := Dispatching\<rparr>))"
      proof (cases d)
        case None
        then show ?thesis using i2 by (simp add: after_close_def)
      next
        case (Some rid)
        then have "streams (p1\<lparr>stage := Dispatching\<rparr>) rid = Some i" using i(3) f by simp
        from inv_del [OF i2 this] show ?thesis using Some f by (simp add: after_close_def)
      qed
      then show ?thesis
        using Closing Some c None by (simp add: handle_connection_def)
    qed
  qed
next
  case Returned
  then show ?thesis using assms by (simp add: handle_connection_def)
qed

lemma inv_step:
  assumes "inv p"
  shows "inv (step ev p)"
proof (cases ev)
  case (Frame host)
  then show ?thesis using inv_handle_connection [OF assms] by simp
next
  case (Pump i k)
  then show ?thesis
    using inv_channel_step [OF assms _ channel_step_sink] assms by simp
next
  case (HostReset i)
  then show ?thesis
    using inv_channel_step [OF assms _ channel_step_host_reset] assms by simp
next
  case (HostStall i)
  then show ?thesis
    using inv_channel_step [OF assms _ channel_step_backlog] assms by simp
next
  case (HostFlush i)
  then show ?thesis
    using inv_channel_step [OF assms _ channel_step_backlog] assms by simp
next
  case PeerReset
  have "inv (p\<lparr>peer := (peer p)\<lparr>alive := False\<rparr>\<rparr>)"
    by (rule inv_mono [OF assms]) (use assms in \<open>simp_all add: wrte_sent_def inv_def\<close>)
  then show ?thesis using PeerReset by simp
qed

lemma inv_exec:
  assumes "inv p"
  shows "inv (exec evs p)"
  using assms unfolding exec_def
  by (induction evs arbitrary: p) (simp_all add: inv_step)

lemma inv_init: "inv (AdbDeviceProxy input dev)"
  by (simp add: inv_def ids_ok_def table_ok_def open_in_table_def AdbDeviceProxy_def
      wrte_sent_def new_conn_def)

lemma inv_reachable: "inv (exec evs (AdbDeviceProxy input dev))"
  by (rule inv_exec [OF inv_init])

section \<open>Symbolic execution\<close>

lemma ascii_length [simp]: "length (ascii s) = length s"
  by (simp add: ascii_def)

lemma frame_bytes_frame:
  assumes "length cmd = 4" "0 \<le> arg0" "arg0 < 2 ^ 32" "0 \<le> arg1" "arg1 < 2 ^ 32"
    "length data < 2 ^ 32"
  shows "frame_bytes cmd arg0 arg1 data = Inr (frame cmd arg0 arg1 data)"
  using frame_bytes_header [OF assms] by (auto simp: frame_def)

lemma recv_cmd_frame_bytes:
  assumes "length cmd = 4" "0 \<le> arg0" "arg0 < 2 ^ 32" "0 \<le> arg1" "arg1 < 2 ^ 32"
    "length data < 2 ^ 32" "alive r" "inp r = frame cmd arg0 arg1 data @ rest"
  shows "recv_cmd r = (Inr (cmd, arg0, arg1, data), r\<lparr>inp := rest\<rparr>)"
proof -
  from frame_bytes_header [OF assms(1-6)]
  obtain header cmd_id where h: "frame_bytes cmd arg0 arg1 data = Inr (header @ data)"
      "length header = 24" "take 4 header = cmd"
      "unpack_6I header =
         Inr [cmd_id, arg0, arg1, int (length data), crc32 data, cmd_id XOR 0xFFFFFFFF]"
    by blast
  have "inp r = header @ data @ rest" using assms(8) h(1) by (simp add: frame_def)
  from recv_cmd_frame [OF h(2) h(4) assms(7) this] show ?thesis by (simp add: h(3))
qed


lemma unpack_I_range: "unpack_I bs = Inr x \<Longrightarrow> 0 \<le> x \<and> x < 2 ^ 32"
  using pack_unpack_I [OF unpack_I_length, of bs x] by auto

lemma unpack_6I_range:
  assumes "unpack_6I header = Inr xs"
  shows "length header = 24 \<and> list_all (\<lambda>x. 0 \<le> x \<and> x < 2 ^ 32) xs"
  using assms
  by (auto simp: unpack_6I_def split: if_splits sum.splits dest!: unpack_I_range)

text \<open>What a frame that \<open>recv_cmd\<close> returned is known to satisfy.\<close>

lemma recv_cmd_Inr:
  assumes "recv_cmd c = (Inr (cmd, arg0, arg1, data), r)"
  shows "length cmd = 4" "0 \<le> arg0" "arg0 < 2 ^ 32" "0 \<le> arg1" "arg1 < 2 ^ 32" "alive c"
proof -
  obtain res1 r1 where r1: "readexactly 24 c = (res1, r1)" by force
  from assms r1 obtain header where h: "res1 = Inr header"
    by (cases res1) (auto simp: recv_cmd_def)
  have lh: "length header = 24" and al: "alive c"
    using r1 h by (auto simp: readexactly_def split: if_splits)
  from assms r1 h obtain xs where xs: "unpack_6I header = Inr xs"
    by (cases "unpack_6I header") (auto simp: recv_cmd_def)
  from assms r1 h xs have "cmd = take 4 header \<and> (\<exists>a b c d. xs = [a, arg0, arg1, b, c, d])"
    by (auto simp: recv_cmd_def split: list.splits if_splits prod.splits sum.splits)
  then show "length cmd = 4" "0 \<le> arg0" "arg0 < 2 ^ 32" "0 \<le> arg1" "arg1 < 2 ^ 32"
    using unpack_6I_range [OF xs] lh by auto
  show "alive c" by (rule al)
qed

lemma proxy_send_cmd_sent:
  assumes "length cmd = 4" "0 \<le> arg0" "arg0 < 2 ^ 32" "0 \<le> arg1" "arg1 < 2 ^ 32"
    "length data < 2 ^ 32"
  shows "proxy_send_cmd cmd arg0 arg1 data p =
           (if alive (peer p) \<and> \<not> closing (peer p) then None else Some ConnectionResetError,
            p\<lparr>peer := (peer p)\<lparr>out := out (peer p) @ [frame cmd arg0 arg1 data]\<rparr>\<rparr>)"
  by (simp add: proxy_send_cmd_def send_cmd_def frame_bytes_frame [OF assms] write_conn_def
      drain_def Let_def)

text \<open>
  Claim C10. In the loop of \<open>run\<close>, a frame that \<open>recv_cmd\<close> returns and whose tag is none of
  \<open>OPEN\<close>, \<open>WRTE\<close>, \<open>OKAY\<close>, \<open>CLSE\<close> (a second \<open>CNXN\<close> included) is ignored: the handler only
  advances its reader and stays in the loop, no frame is written to the client, and the
  table, the channels and \<open>next_remote_id\<close> are unchanged.
\<close>

theorem unknown_command_ignored:
  assumes "stage p = Dispatching"
    "recv_cmd (peer p) = (Inr (cmd, arg0, arg1, data), r)"
    "cmd \<notin> {ascii ''OPEN'', ascii ''WRTE'', ascii ''OKAY'', ascii ''CLSE''}"
  shows "handle_connection host p = p\<lparr>peer := r, rcvd := rcvd p @ [(cmd, arg0, arg1, data)]\<rparr>
         \<and> out (peer (handle_connection host p)) = out (peer p)
         \<and> streams (handle_connection host p) = streams p
         \<and> chans (handle_connection host p) = chans p
         \<and> next_remote_id (handle_connection host p) = next_remote_id p
         \<and> stage (handle_connection host p) = Dispatching"
proof -
  have "run_loop host p = (None, p\<lparr>peer := r, rcvd := rcvd p @ [(cmd, arg0, arg1, data)]\<rparr>)"
    using assms(2,3) by (simp add: run_loop_def)
  then have "handle_connection host p = p\<lparr>peer := r, rcvd := rcvd p @ [(cmd, arg0, arg1, data)]\<rparr>"
    using assms(1) by (simp add: handle_connection_def)
  then show ?thesis
    using assms(1) recv_cmd_conn [OF assms(2)] by simp
qed

text \<open>
  Claim C9. In the loop of \<open>run\<close>, when an \<open>OPEN\<close> frame with first argument \<open>a0\<close> names a
  destination and \<open>open_client_stream\<close> raises, the proxy writes \<open>CLSE(a0, 0)\<close> to the
  client, leaves the table and the channels as they were, has advanced \<open>next_remote_id\<close>
  by one, and stays in its loop.
\<close>

theorem open_failure_rejected:
  assumes "stage p = Dispatching" "\<not> closing (peer p)"
    "recv_cmd (peer p) = (Inr (ascii ''OPEN'', a0, a1, data), r)"
    "decode (rstrip_nul data) = Inr destination"
    "open_client_stream host (device_id p) destination = Inl e"
  shows "handle_connection host p =
           p\<lparr>peer := r\<lparr>out := out (peer p) @ [frame (ascii ''CLSE'') a0 0 []]\<rparr>,
             rcvd := rcvd p @ [(ascii ''OPEN'', a0, a1, data)],
             next_remote_id := next_remote_id p + 1\<rparr>
         \<and> frame_bytes (ascii ''CLSE'') a0 0 [] = Inr (frame (ascii ''CLSE'') a0 0 [])
         \<and> streams (handle_connection host p) = streams p
         \<and> chans (handle_connection host p) = chans p
         \<and> stage (handle_connection host p) = Dispatching"
proof -
  note f = recv_cmd_Inr [OF assms(3)]
  note c = recv_cmd_conn [OF assms(3)]
  have fb: "frame_bytes (ascii ''CLSE'') a0 0 [] = Inr (frame (ascii ''CLSE'') a0 0 [])"
    by (rule frame_bytes_frame) (use f in simp_all)
  let ?p2 = "p\<lparr>peer := r, rcvd := rcvd p @ [(ascii ''OPEN'', a0, a1, data)],
               next_remote_id := next_remote_id p + 1\<rparr>"
  have "proxy_send_cmd (ascii ''CLSE'') a0 0 [] ?p2 =
          (None, ?p2\<lparr>peer := (peer ?p2)\<lparr>out := out (peer ?p2) @ [frame (ascii ''CLSE'') a0 0 []]\<rparr>\<rparr>)"
    using f c assms(2) by (subst proxy_send_cmd_sent) simp_all
  then have "run_loop host p =
      (None, p\<lparr>peer := r\<lparr>out := out (peer p) @ [frame (ascii ''CLSE'') a0 0 []]\<rparr>,
               rcvd := rcvd p @ [(ascii ''OPEN'', a0, a1, data)],
               next_remote_id := next_remote_id p + 1\<rparr>)"
    using assms(3,4,5) c by (simp add: run_loop_def Let_def)
  then have "handle_connection host p =
           p\<lparr>peer := r\<lparr>out := out (peer p) @ [frame (ascii ''CLSE'') a0 0 []]\<rparr>,
             rcvd := rcvd p @ [(ascii ''OPEN'', a0, a1, data)],
             next_remote_id := next_remote_id p + 1\<rparr>"
    using assms(1) by (simp add: handle_connection_def)
  then show ?thesis using fb assms(1) by simp
qed

lemma readexactly_take:
  assumes "alive c" "inp c = bs @ rest" "n = int (length bs)"
  shows "readexactly n c = (Inr bs, c\<lparr>inp := rest\<rparr>)"
  using assms by (simp add: readexactly_def)

lemma read_failure_conn:
  assumes "read_failure c = (e, c')"
  shows "out c' = out c" "alive c' = alive c"
proof -
  obtain r1 c1 where 1: "readexactly 4 c = (r1, c1)" by force
  note a = readexactly_conn [OF 1]
  have "out c' = out c \<and> alive c' = alive c"
  proof (cases r1)
    case (Inl x)
    then show ?thesis using assms 1 a by (simp add: read_failure_def)
  next
    case (Inr len_b)
    show ?thesis
    proof (cases "int16 len_b")
      case (Inl x)
      then show ?thesis using assms 1 Inr a by (simp add: read_failure_def)
    next
      case n: (Inr n)
      obtain r2 c2 where 2: "readexactly n c1 = (r2, c2)" by force
      note b = readexactly_conn [OF 2]
      show ?thesis
        using assms 1 Inr n 2 a b
        by (auto simp: read_failure_def close_conn_def split: sum.splits)
    qed
  qed
  then show "out c' = out c" "alive c' = alive c" by simp_all
qed

text \<open>With the length and the message available, the \<open>try\<close> block reads exactly them.\<close>

lemma read_failure_reads:
  assumes "alive c" "inp c = len_b @ msg @ rest" "length len_b = 4"
    "int16 len_b = Inr (int (length msg))"
  shows "inp (snd (read_failure c)) = rest"
proof -
  have 1: "readexactly 4 c = (Inr len_b, c\<lparr>inp := msg @ rest\<rparr>)"
    by (rule readexactly_take) (use assms in simp_all)
  have 2: "readexactly (int (length msg)) (c\<lparr>inp := msg @ rest\<rparr>)
             = (Inr msg, c\<lparr>inp := msg @ rest, inp := rest\<rparr>)"
    by (rule readexactly_take) (use assms in simp_all)
  show ?thesis
    by (simp add: read_failure_def 1 assms(4) 2 close_conn_def split: sum.splits)
qed

text \<open>A request answered by something other than \<open>OKAY\<close>.\<close>

lemma request_fail:
  assumes "alive c" "\<not> closing c" "inp c = status @ rest" "length status = 4"
    "status \<noteq> ascii ''OKAY''"
  shows "request destination cmd_b c =
           (Some (FailedToOpen destination),
            close_conn (snd (read_failure (c\<lparr>out := out c @ [format_04x (length cmd_b) @ cmd_b],
                                             inp := rest\<rparr>))))"
proof -
  let ?c1 = "c\<lparr>out := out c @ [format_04x (length cmd_b) @ cmd_b]\<rparr>"
  have d: "drain ?c1 = None" using assms(1,2) by (simp add: drain_def)
  have r: "readexactly 4 ?c1 = (Inr status, ?c1\<lparr>inp := rest\<rparr>)"
    by (rule readexactly_take) (use assms in simp_all)
  show ?thesis
    using assms(5) by (simp add: request_def Let_def write_conn_def d r split: prod.splits)
qed

text \<open>A request answered by \<open>OKAY\<close>.\<close>

lemma request_ok:
  assumes "alive c" "\<not> closing c" "inp c = ascii ''OKAY'' @ rest"
  shows "request destination cmd_b c =
           (None, c\<lparr>out := out c @ [format_04x (length cmd_b) @ cmd_b], inp := rest\<rparr>)"
proof -
  let ?c1 = "c\<lparr>out := out c @ [format_04x (length cmd_b) @ cmd_b]\<rparr>"
  have d: "drain ?c1 = None" using assms(1,2) by (simp add: drain_def)
  have r: "readexactly 4 ?c1 = (Inr (ascii ''OKAY''), ?c1\<lparr>inp := rest\<rparr>)"
    by (rule readexactly_take) (use assms in simp_all)
  show ?thesis
    by (simp add: request_def Let_def write_conn_def d r)
qed

lemma request_fail_reads:
  assumes "alive c" "\<not> closing c" "inp c = status @ len_b @ msg @ rest'" "length status = 4"
    "status \<noteq> ascii ''OKAY''" "length len_b = 4" "int16 len_b = Inr (int (length msg))"
  shows "inp (snd (request destination cmd_b c)) = rest'"
proof -
  let ?c2 = "c\<lparr>out := out c @ [format_04x (length cmd_b) @ cmd_b], inp := len_b @ msg @ rest'\<rparr>"
  have "inp (snd (read_failure ?c2)) = rest'"
    by (rule read_failure_reads [OF _ _ assms(6,7)]) (use assms(1) in simp_all)
  then show ?thesis
    by (simp add: request_fail [OF assms(1-5)] close_conn_def)
qed

lemma request_fail_closing:
  assumes "alive c" "\<not> closing c" "inp c = status @ rest" "length status = 4"
    "status \<noteq> ascii ''OKAY''"
  shows "fst (request destination cmd_b c) = Some (FailedToOpen destination)"
    "closing (snd (request destination cmd_b c))"
  by (simp_all add: request_fail [OF assms] close_conn_def)

lemma requests_fail:
  assumes "alive c" "\<not> closing c" "length status = 4" "status \<noteq> ascii ''OKAY''"
    "inp c = status @ rest \<or> inp c = ascii ''OKAY'' @ status @ rest"
  shows "fst (requests dev destination c) = Some (FailedToOpen destination)
      \<and> closing (snd (requests dev destination c))
      \<and> (length len_b = 4 \<longrightarrow> int16 len_b = Inr (int (length msg)) \<longrightarrow> rest = len_b @ msg @ rest'
           \<longrightarrow> inp (snd (requests dev destination c)) = rest')"
proof (cases "inp c = status @ rest")
  case True
  define t where "t = ascii ''host:transport:'' @ dev"
  note f = request_fail_closing [OF assms(1,2) True assms(3,4), of destination t]
  obtain e c' where r: "request destination t c = (e, c')" by force
  have eq: "requests dev destination c = request destination t c"
    using f(1) by (simp add: requests_def t_def [symmetric] r)
  have "inp (snd (request destination t c)) = rest'"
    if "length len_b = 4" "int16 len_b = Inr (int (length msg))" "rest = len_b @ msg @ rest'"
    by (rule request_fail_reads [OF assms(1,2) _ assms(3,4) that(1,2)]) (use True that(3) in simp)
  then show ?thesis using f by (simp add: eq)
next
  case False
  define t where "t = ascii ''host:transport:'' @ dev"
  from False have i: "inp c = ascii ''OKAY'' @ status @ rest" using assms(5) by simp
  define c1 where "c1 = c\<lparr>out := out c @ [format_04x (length t) @ t], inp := status @ rest\<rparr>"
  have ok: "request destination t c = (None, c1)"
    unfolding c1_def by (rule request_ok [OF assms(1,2) i])
  have a: "alive c1" "\<not> closing c1" "inp c1 = status @ rest"
    using assms(1,2) by (simp_all add: c1_def)
  note f = request_fail_closing [OF a assms(3,4), of destination destination]
  have eq: "requests dev destination c = request destination destination c1"
    by (simp add: requests_def t_def [symmetric] ok)
  have "inp (snd (request destination destination c1)) = rest'"
    if "length len_b = 4" "int16 len_b = Inr (int (length msg))" "rest = len_b @ msg @ rest'"
    by (rule request_fail_reads [OF a(1,2) _ assms(3,4) that(1,2)]) (use a(3) that(3) in simp)
  then show ?thesis using f by (simp add: eq)
qed

lemma open_client_stream_fail:
  assumes "alive c" "\<not> closing c" "length status = 4" "status \<noteq> ascii ''OKAY''"
    "inp c = status @ rest \<or> inp c = ascii ''OKAY'' @ status @ rest"
  shows "open_client_stream (Some c) dev destination = Inl (FailedToOpen destination)"
proof -
  obtain e c' where r: "requests dev destination c = (e, c')" by force
  then have "e = Some (FailedToOpen destination)"
    using requests_fail [OF assms, of dev destination] by simp
  then show ?thesis by (simp add: open_client_stream_def r)
qed

text \<open>Both requests answered by \<open>OKAY\<close>: what is left of the input is the service's data.\<close>

lemma open_client_stream_ok:
  assumes "alive c" "\<not> closing c" "inp c = ascii ''OKAY'' @ ascii ''OKAY'' @ rest"
  shows "\<exists>s. open_client_stream (Some c) dev destination = Inr s
           \<and> inp s = rest \<and> alive s \<and> \<not> closing s"
proof -
  define t where "t = ascii ''host:transport:'' @ dev"
  define c1 where "c1 = c\<lparr>out := out c @ [format_04x (length t) @ t], inp := ascii ''OKAY'' @ rest\<rparr>"
  define c2 where "c2 = c1\<lparr>out := out c1 @ [format_04x (length destination) @ destination], inp := rest\<rparr>"
  have 1: "request destination t c = (None, c1)"
    unfolding c1_def by (rule request_ok [OF assms(1,2,3)])
  have 2: "request destination destination c1 = (None, c2)"
    unfolding c2_def by (rule request_ok) (use assms in \<open>simp_all add: c1_def\<close>)
  have "open_client_stream (Some c) dev destination = Inr c2"
    by (simp add: open_client_stream_def requests_def t_def [symmetric] 1 2)
  moreover have "inp c2 = rest \<and> alive c2 \<and> \<not> closing c2"
    using assms(1,2) by (simp add: c2_def c1_def)
  ultimately show ?thesis by blast
qed

lemma handle_connection_handshake:
  assumes "stage p = Handshake" "recv_cmd (peer p) = (Inr (ascii ''CNXN'', a0, a1, data), r)"
    "\<not> closing (peer p)" "length (device_id p) < 1000000"
  shows "handle_connection host p =
           p\<lparr>peer := r\<lparr>out := out (peer p) @
                   [frame (ascii ''CNXN'') protocol_version max_data_len
                      (ascii ''device::'' @ ascii ''proxy_'' @ device_id p @ [0])]\<rparr>,
             rcvd := rcvd p @ [(ascii ''CNXN'', a0, a1, data)], stage := Dispatching\<rparr>"
proof -
  note f = recv_cmd_Inr [OF assms(2)]
  note c = recv_cmd_conn [OF assms(2)]
  let ?p1 = "p\<lparr>peer := r, rcvd := rcvd p @ [(ascii ''CNXN'', a0, a1, data)]\<rparr>"
  let ?b = "ascii ''device::'' @ ascii ''proxy_'' @ device_id p @ [0]"
  have "proxy_send_cmd (ascii ''CNXN'') protocol_version max_data_len ?b ?p1 =
          (None, ?p1\<lparr>peer := (peer ?p1)\<lparr>out := out (peer ?p1) @
             [frame (ascii ''CNXN'') protocol_version max_data_len ?b]\<rparr>\<rparr>)"
    using f c assms(3,4)
    by (subst proxy_send_cmd_sent) (simp_all add: protocol_version_def max_data_len_def)
  then have "run_handshake p =
      (None, p\<lparr>peer := r\<lparr>out := out (peer p) @
                   [frame (ascii ''CNXN'') protocol_version max_data_len ?b]\<rparr>,
               rcvd := rcvd p @ [(ascii ''CNXN'', a0, a1, data)]\<rparr>)"
    using assms(2) c by (simp add: run_handshake_def Let_def device_name_def)
  then show ?thesis
    using assms(1) by (simp add: handle_connection_def)
qed

text \<open>The handshake of a client that sends \<open>CNXN(0x01000000, 0x00040000, "host::\0")\<close>.\<close>

lemma handshake_hello:
  "handle_connection host (AdbDeviceProxy (hello @ rest) (ascii ''dev1'')) =
     \<lparr>peer = \<lparr>inp = rest, out = [banner (ascii ''dev1'')], closing = False, alive = True\<rparr>,
      device_id = ascii ''dev1'', streams = Map.empty, next_remote_id = 1, chans = [],
      rcvd = [(ascii ''CNXN'', 16777216, 262144, ascii ''host::'' @ [0])],
      stage = Dispatching\<rparr>"
proof -
  let ?p = "AdbDeviceProxy (hello @ rest) (ascii ''dev1'')"
  have r: "recv_cmd (peer ?p) =
      (Inr (ascii ''CNXN'', 16777216, 262144, ascii ''host::'' @ [0]), (peer ?p)\<lparr>inp := rest\<rparr>)"
    by (rule recv_cmd_frame_bytes) (simp_all add: AdbDeviceProxy_def new_conn_def hello_def)
  show ?thesis
    by (subst handle_connection_handshake [OF _ r])
      (simp_all add: AdbDeviceProxy_def new_conn_def banner_def)
qed

text \<open>
  Claim C6 (as amended). When the host ADB server answers the first or the second request
  of \<open>open_client_stream\<close> with a status other than \<open>OKAY\<close>, the function raises, the
  connection is closed, and a 4-digit hexadecimal length followed by that many bytes of
  text, when the server sends them, have been read from the connection. What it raises
  does not tell the two requests apart: it is what the same answer to the first request
  raises, and what the same answer to the second request raises.
\<close>

theorem non_okay_status_fails:
  assumes "alive c" "\<not> closing c" "length status = 4" "status \<noteq> ascii ''OKAY''"
    "inp c = status @ rest \<or> inp c = ascii ''OKAY'' @ status @ rest"
  shows "(\<exists>e. open_client_stream (Some c) dev destination = Inl e)
         \<and> open_client_stream (Some c) dev destination
             = open_client_stream (Some (c\<lparr>inp := status @ rest\<rparr>)) dev destination
         \<and> open_client_stream (Some c) dev destination
             = open_client_stream (Some (c\<lparr>inp := ascii ''OKAY'' @ status @ rest\<rparr>)) dev
                 destination
         \<and> closing (snd (requests dev destination c))
         \<and> (length len_b = 4 \<longrightarrow> int16 len_b = Inr (int (length msg))
              \<longrightarrow> rest = len_b @ msg @ rest'
              \<longrightarrow> inp (snd (requests dev destination c)) = rest')"
proof -
  have 1: "open_client_stream (Some (c\<lparr>inp := status @ rest\<rparr>)) dev destination
             = Inl (FailedToOpen destination)"
    by (rule open_client_stream_fail [where status = status and rest = rest])
      (use assms(1-4) in simp_all)
  have 2: "open_client_stream (Some (c\<lparr>inp := ascii ''OKAY'' @ status @ rest\<rparr>)) dev destination
             = Inl (FailedToOpen destination)"
    by (rule open_client_stream_fail [where status = status and rest = rest])
      (use assms(1-4) in simp_all)
  show ?thesis
    using requests_fail [OF assms, of dev destination len_b msg rest']
      open_client_stream_fail [OF assms, of dev destination] 1 2
    by simp
qed

theorem non_okay_status_fails_witness:
  "(\<exists>e. open_client_stream (Some (new_conn (ascii ''FAIL0004oops''))) (ascii ''dev1'')
          (ascii ''shell:ls'') = Inl e)
   \<and> open_client_stream (Some (new_conn (ascii ''FAIL0004oops''))) (ascii ''dev1'')
          (ascii ''shell:ls'')
       = open_client_stream (Some (new_conn (ascii ''OKAYFAIL0004oops''))) (ascii ''dev1'')
          (ascii ''shell:ls'')
   \<and> closing (snd (requests (ascii ''dev1'') (ascii ''shell:ls'')
                     (new_conn (ascii ''FAIL0004oops''))))
   \<and> inp (snd (requests (ascii ''dev1'') (ascii ''shell:ls'')
                 (new_conn (ascii ''FAIL0004oops'')))) = []"
proof -
  have i: "int16 (ascii ''0004'') = Inr (int (length (ascii ''oops'')))"
    by (simp add: int16_def ascii_def is_space_def hex_val_def)
  show ?thesis
    using non_okay_status_fails [of "new_conn (ascii ''FAIL0004oops'')" "ascii ''FAIL''"
        "ascii ''0004oops''" "ascii ''dev1''" "ascii ''shell:ls''" "ascii ''0004''" "ascii ''oops''" "[]"]
      i
    by (auto simp: new_conn_def ascii_def)
qed

text \<open>
  Against claim C6 as stated: a \<open>FAIL\<close> at the transport request with the message
  \<open>oops\<close> and a \<open>FAIL\<close> at the service request with the message \<open>bad\<close> raise the same
  exception, which names the destination only.
\<close>

theorem error_hides_phase_and_message:
  "open_client_stream (Some (new_conn (ascii ''FAIL0004oops''))) (ascii ''dev1'')
     (ascii ''shell:ls'') = Inl (FailedToOpen (ascii ''shell:ls''))
   \<and> open_client_stream (Some (new_conn (ascii ''OKAYFAIL0003bad''))) (ascii ''dev1'')
     (ascii ''shell:ls'') = Inl (FailedToOpen (ascii ''shell:ls''))"
proof -
  have 1: "open_client_stream (Some (new_conn (ascii ''FAIL0004oops''))) (ascii ''dev1'')
     (ascii ''shell:ls'') = Inl (FailedToOpen (ascii ''shell:ls''))"
    by (rule open_client_stream_fail [where status = "ascii ''FAIL''" and rest = "ascii ''0004oops''"])
      (simp_all add: new_conn_def ascii_def)
  have 2: "open_client_stream (Some (new_conn (ascii ''OKAYFAIL0003bad''))) (ascii ''dev1'')
     (ascii ''shell:ls'') = Inl (FailedToOpen (ascii ''shell:ls''))"
    by (rule open_client_stream_fail [where status = "ascii ''FAIL''" and rest = "ascii ''0003bad''"])
      (simp_all add: new_conn_def ascii_def)
  from 1 2 show ?thesis by simp
qed

theorem unknown_command_ignored_witness:
  "exec [Frame None, Frame None] (AdbDeviceProxy (hello @ hello) (ascii ''dev1''))
     = (exec [Frame None] (AdbDeviceProxy (hello @ hello) (ascii ''dev1'')))
         \<lparr>peer := \<lparr>inp = [], out = [banner (ascii ''dev1'')], closing = False, alive = True\<rparr>,
          rcvd := [(ascii ''CNXN'', 16777216, 262144, ascii ''host::'' @ [0]),
                   (ascii ''CNXN'', 16777216, 262144, ascii ''host::'' @ [0])]\<rparr>
   \<and> stage (exec [Frame None, Frame None] (AdbDeviceProxy (hello @ hello) (ascii ''dev1'')))
       = Dispatching"
proof -
  let ?q = "\<lparr>peer = \<lparr>inp = hello, out = [banner (ascii ''dev1'')], closing = False, alive = True\<rparr>,
      device_id = ascii ''dev1'', streams = Map.empty, next_remote_id = 1, chans = [],
      rcvd = [(ascii ''CNXN'', 16777216, 262144, ascii ''host::'' @ [0])],
      stage = Dispatching\<rparr>"
  have r: "recv_cmd (peer ?q) =
      (Inr (ascii ''CNXN'', 16777216, 262144, ascii ''host::'' @ [0]), (peer ?q)\<lparr>inp := []\<rparr>)"
    by (rule recv_cmd_frame_bytes) (simp_all add: hello_def)
  have t: "ascii ''CNXN'' \<notin> {ascii ''OPEN'', ascii ''WRTE'', ascii ''OKAY'', ascii ''CLSE''}"
    by (simp add: ascii_def)
  show ?thesis
    using unknown_command_ignored [of ?q "ascii ''CNXN''" 16777216 262144
        "ascii ''host::'' @ [0]" "(peer ?q)\<lparr>inp := []\<rparr>" None, OF _ r t]
    by (simp add: exec_def handshake_hello)
qed

theorem open_failure_rejected_witness:
  "next_remote_id (exec [Frame None, Frame (Some (new_conn (ascii ''FAIL0004oops'')))]
     (AdbDeviceProxy (hello @ frame (ascii ''OPEN'') 7 0 (ascii ''shell:exit'' @ [0]))
        (ascii ''dev1''))) = 2
   \<and> streams (exec [Frame None, Frame (Some (new_conn (ascii ''FAIL0004oops'')))]
     (AdbDeviceProxy (hello @ frame (ascii ''OPEN'') 7 0 (ascii ''shell:exit'' @ [0]))
        (ascii ''dev1''))) = Map.empty
   \<and> out (peer (exec [Frame None, Frame (Some (new_conn (ascii ''FAIL0004oops'')))]
     (AdbDeviceProxy (hello @ frame (ascii ''OPEN'') 7 0 (ascii ''shell:exit'' @ [0]))
        (ascii ''dev1'')))) = [banner (ascii ''dev1''), frame (ascii ''CLSE'') 7 0 []]
   \<and> stage (exec [Frame None, Frame (Some (new_conn (ascii ''FAIL0004oops'')))]
     (AdbDeviceProxy (hello @ frame (ascii ''OPEN'') 7 0 (ascii ''shell:exit'' @ [0]))
        (ascii ''dev1''))) = Dispatching"
proof -
  let ?open = "frame (ascii ''OPEN'') 7 0 (ascii ''shell:exit'' @ [0])"
  let ?q = "\<lparr>peer = \<lparr>inp = ?open, out = [banner (ascii ''dev1'')], closing = False, alive = True\<rparr>,
      device_id = ascii ''dev1'', streams = Map.empty, next_remote_id = 1, chans = [],
      rcvd = [(ascii ''CNXN'', 16777216, 262144, ascii ''host::'' @ [0])],
      stage = Dispatching\<rparr>"
  let ?host = "Some (new_conn (ascii ''FAIL0004oops''))"
  have r: "recv_cmd (peer ?q) =
      (Inr (ascii ''OPEN'', 7, 0, ascii ''shell:exit'' @ [0]), (peer ?q)\<lparr>inp := []\<rparr>)"
    by (rule recv_cmd_frame_bytes [where rest = "[]"]) simp_all
  have d: "decode (rstrip_nul (ascii ''shell:exit'' @ [0])) = Inr (ascii ''shell:exit'')"
    by (simp add: decode_def rstrip_nul_def ascii_def)
  have o: "open_client_stream ?host (device_id ?q) (ascii ''shell:exit'')
             = Inl (FailedToOpen (ascii ''shell:exit''))"
    by (rule open_client_stream_fail [where status = "ascii ''FAIL''" and rest = "ascii ''0004oops''"])
      (simp_all add: new_conn_def ascii_def)
  show ?thesis
    using open_failure_rejected [of ?q 7 0 "ascii ''shell:exit'' @ [0]" "(peer ?q)\<lparr>inp := []\<rparr>"
        "ascii ''shell:exit''" ?host "FailedToOpen (ascii ''shell:exit'')", OF _ _ r d o]
    by (simp add: exec_def handshake_hello)
qed


section \<open>Scenario lemmas\<close>

lemma open_client_stream_opened:
  "open_client_stream (Some (new_conn (ascii ''OKAY'' @ ascii ''OKAY'' @ data))) dev destination
     = Inr (opened dev destination data)"
proof -
  define t where "t = ascii ''host:transport:'' @ dev"
  define c where "c = new_conn (ascii ''OKAY'' @ ascii ''OKAY'' @ data)"
  define c1 where "c1 = c\<lparr>out := out c @ [format_04x (length t) @ t], inp := ascii ''OKAY'' @ data\<rparr>"
  define c2 where "c2 = c1\<lparr>out := out c1 @ [format_04x (length destination) @ destination], inp := data\<rparr>"
  have 1: "request destination t c = (None, c1)"
    unfolding c1_def by (rule request_ok) (simp_all add: c_def new_conn_def)
  have 2: "request destination destination c1 = (None, c2)"
    unfolding c2_def by (rule request_ok) (simp_all add: c1_def c_def new_conn_def)
  have "open_client_stream (Some c) dev destination = Inr c2"
    by (simp add: open_client_stream_def requests_def t_def [symmetric] 1 2)
  moreover have "c2 = opened dev destination data"
    by (simp add: c2_def c1_def c_def new_conn_def opened_def t_def)
  ultimately show ?thesis by (simp add: c_def)
qed

lemma handle_connection_open:
  assumes "stage p = Dispatching" "\<not> closing (peer p)"
    "recv_cmd (peer p) = (Inr (ascii ''OPEN'', a0, a1, data), r)"
    "decode (rstrip_nul data) = Inr destination"
    "open_client_stream host (device_id p) destination = Inr s"
    "0 \<le> next_remote_id p" "next_remote_id p < 2 ^ 32"
  shows "handle_connection host p =
           p\<lparr>peer := r\<lparr>out := out (peer p) @ [frame (ascii ''OKAY'') (next_remote_id p) a0 []]\<rparr>,
             rcvd := rcvd p @ [(ascii ''OPEN'', a0, a1, data)],
             next_remote_id := next_remote_id p + 1,
             chans := chans p @ [ProxyChannel destination a0 (next_remote_id p) s],
             streams := (streams p)(next_remote_id p \<mapsto> length (chans p))\<rparr>"
proof -
  note f = recv_cmd_Inr [OF assms(3)]
  note c = recv_cmd_conn [OF assms(3)]
  let ?p3 = "p\<lparr>peer := r, rcvd := rcvd p @ [(ascii ''OPEN'', a0, a1, data)],
               next_remote_id := next_remote_id p + 1,
               chans := chans p @ [ProxyChannel destination a0 (next_remote_id p) s],
               streams := (streams p)(next_remote_id p \<mapsto> length (chans p))\<rparr>"
  have "proxy_send_cmd (ascii ''OKAY'') (next_remote_id p) a0 [] ?p3 =
          (None, ?p3\<lparr>peer := (peer ?p3)\<lparr>out := out (peer ?p3)
             @ [frame (ascii ''OKAY'') (next_remote_id p) a0 []]\<rparr>\<rparr>)"
    using f c assms(2,6,7) by (subst proxy_send_cmd_sent) simp_all
  then have "run_loop host p =
      (None, p\<lparr>peer := r\<lparr>out := out (peer p) @ [frame (ascii ''OKAY'') (next_remote_id p) a0 []]\<rparr>,
             rcvd := rcvd p @ [(ascii ''OPEN'', a0, a1, data)],
             next_remote_id := next_remote_id p + 1,
             chans := chans p @ [ProxyChannel destination a0 (next_remote_id p) s],
             streams := (streams p)(next_remote_id p \<mapsto> length (chans p))\<rparr>)"
    using assms(3,4,5) c by (simp add: run_loop_def Let_def)
  then show ?thesis
    using assms(1) by (simp add: handle_connection_def)
qed

lemma rstrip_nul_snoc: "rstrip_nul (bs @ [0]) = rstrip_nul bs"
  by (simp add: rstrip_nul_def)

text \<open>The handshake and a successful \<open>OPEN\<close> lead to \<open>session\<close>.\<close>

lemma exec_session:
  assumes "decode (rstrip_nul destination) = Inr destination" "length destination < 1000"
  shows "exec [Frame None, Frame (Some (new_conn (ascii ''OKAY'' @ ascii ''OKAY'' @ data)))]
           (AdbDeviceProxy (hello @ frame (ascii ''OPEN'') 7 0 (destination @ [0]) @ rest)
              (ascii ''dev1''))
         = session destination data rest"
proof -
  let ?open = "frame (ascii ''OPEN'') 7 0 (destination @ [0])"
  let ?q = "\<lparr>peer = \<lparr>inp = ?open @ rest, out = [banner (ascii ''dev1'')], closing = False,
                      alive = True\<rparr>,
      device_id = ascii ''dev1'', streams = Map.empty, next_remote_id = 1, chans = [],
      rcvd = [(ascii ''CNXN'', 16777216, 262144, ascii ''host::'' @ [0])],
      stage = Dispatching\<rparr>"
  let ?host = "Some (new_conn (ascii ''OKAY'' @ ascii ''OKAY'' @ data))"
  have r: "recv_cmd (peer ?q) =
      (Inr (ascii ''OPEN'', 7, 0, destination @ [0]), (peer ?q)\<lparr>inp := rest\<rparr>)"
    by (rule recv_cmd_frame_bytes) (use assms(2) in simp_all)
  have d: "decode (rstrip_nul (destination @ [0])) = Inr destination"
    using assms(1) by (simp add: rstrip_nul_snoc)
  have o: "open_client_stream ?host (device_id ?q) destination
             = Inr (opened (ascii ''dev1'') destination data)"
    by (simp add: open_client_stream_opened)
  have "handle_connection ?host ?q = session destination data rest"
    by (subst handle_connection_open [OF _ _ r d o]) (simp_all add: session_def)
  then show ?thesis
    by (simp add: exec_def handshake_hello)
qed

lemma decode_shell: "decode (rstrip_nul (ascii ''shell:ls'')) = Inr (ascii ''shell:ls'')"
  by (simp add: decode_def rstrip_nul_def ascii_def)



lemma exec_snoc: "exec (evs @ [e]) p = step e (exec evs p)"
  by (simp add: exec_def)

lemma exec_append: "exec (xs @ ys) p = exec ys (exec xs p)"
  by (simp add: exec_def)

lemma exec_Cons: "exec (e # evs) p = exec evs (step e p)"
  by (simp add: exec_def)

lemma exec_Nil: "exec [] p = p"
  by (simp add: exec_def)

text \<open>What \<open>close\<close> sends and when it raises, for 32-bit ids.\<close>

lemma close_end_sent:
  assumes "0 \<le> remote_id (chans p ! i)" "remote_id (chans p ! i) < 2 ^ 32"
    "0 \<le> local_id (chans p ! i)" "local_id (chans p ! i) < 2 ^ 32"
  shows "close_end i p =
           (if alive (peer p) \<and> \<not> closing (peer p) then None else Some ConnectionResetError,
            p\<lparr>peer := (peer p)\<lparr>out := out (peer p)
                @ [frame (ascii ''CLSE'') (remote_id (chans p ! i)) (local_id (chans p ! i)) []]\<rparr>\<rparr>)"
  unfolding close_end_def using assms by (subst proxy_send_cmd_sent) simp_all

lemma close_sent:
  assumes "\<not> closed (chans p ! i)" "i < length (chans p)"
    "0 \<le> remote_id (chans p ! i)" "remote_id (chans p ! i) < 2 ^ 32"
    "0 \<le> local_id (chans p ! i)" "local_id (chans p ! i) < 2 ^ 32"
  shows "close i p =
           (if alive (peer p) \<and> \<not> closing (peer p) then None else Some ConnectionResetError,
            p\<lparr>chans := (chans p)[i := (chans p ! i)\<lparr>closed := True,
                  ready_to_send := Suc (ready_to_send (chans p ! i)), sink_task := Done,
                  sock := close_conn (sock (chans p ! i))\<rparr>],
              peer := (peer p)\<lparr>out := out (peer p)
                @ [frame (ascii ''CLSE'') (remote_id (chans p ! i)) (local_id (chans p ! i)) []]\<rparr>\<rparr>)"
  unfolding close_unfold [OF assms(1,2)]
  using assms(3-6) by (subst proxy_send_cmd_sent) simp_all

text \<open>The handler takes a frame for a channel in the table.\<close>

lemma handle_connection_wrte:
  assumes "stage p = Dispatching"
    "recv_cmd (peer p) = (Inr (ascii ''WRTE'', lid, rid, data), r)" "streams p rid = Some i"
  shows "handle_connection host p =
           chan_write i data (p\<lparr>peer := r, rcvd := rcvd p @ [(ascii ''WRTE'', lid, rid, data)]\<rparr>)"
  using assms
  by (simp add: handle_connection_def run_loop_def Let_def ascii_tags ascii_tags [symmetric])

lemma handle_connection_okay:
  assumes "stage p = Dispatching"
    "recv_cmd (peer p) = (Inr (ascii ''OKAY'', lid, rid, data), r)" "streams p rid = Some i"
  shows "handle_connection host p =
           ready i (p\<lparr>peer := r, rcvd := rcvd p @ [(ascii ''OKAY'', lid, rid, data)]\<rparr>)"
  using assms
  by (simp add: handle_connection_def run_loop_def Let_def ascii_tags ascii_tags [symmetric])

lemma handle_connection_clse:
  assumes "stage p = Dispatching"
    "recv_cmd (peer p) = (Inr (ascii ''CLSE'', lid, rid, data), r)" "streams p rid = Some i"
  shows "handle_connection host p =
           close_await (Some rid) i
             (p\<lparr>peer := r, rcvd := rcvd p @ [(ascii ''CLSE'', lid, rid, data)]\<rparr>)"
  using assms
  by (simp add: handle_connection_def run_loop_def Let_def ascii_tags ascii_tags [symmetric])

text \<open>An exception of \<open>recv_cmd\<close> ends the handler.\<close>

lemma handle_connection_raise:
  assumes "stage p = Dispatching" "recv_cmd (peer p) = (Inl e, r)"
  shows "handle_connection host p = p\<lparr>peer := close_conn r, stage := Returned\<rparr>"
  using assms by (simp add: handle_connection_def run_loop_def)

lemma recv_cmd_eof:
  assumes "alive c" "inp c = []"
  shows "recv_cmd c = (Inl IncompleteReadError, c)"
proof -
  have "c\<lparr>inp := []\<rparr> = c" using assms(2) by (cases c) simp
  then show ?thesis using assms by (simp add: recv_cmd_def readexactly_def)
qed

lemma recv_cmd_reset:
  assumes "\<not> alive c"
  shows "recv_cmd c = (Inl ConnectionResetError, c)"
  using assms by (simp add: recv_cmd_def readexactly_def)

text \<open>The handler suspended in \<open>close\<close>.\<close>

lemma handle_connection_closing:
  assumes "stage p = Closing i d"
  shows "handle_connection host p =
           (if alive (sock (chans p ! i)) \<and> 0 < buffered (chans p ! i) then p
            else case close_end i p of
                   (Some x, p1) \<Rightarrow> p1\<lparr>peer := close_conn (peer p1), stage := Returned\<rparr>
                 | (None, p1) \<Rightarrow> after_close d (p1\<lparr>stage := Dispatching\<rparr>))"
  using assms by (simp add: handle_connection_def wait_closed_def)

lemma chan_write_sent:
  assumes "i < length (chans p)" "alive (sock (chans p ! i))" "\<not> closing (sock (chans p ! i))"
    "buffered (sock_write data (chans p ! i)) \<le> high_water"
    "0 \<le> remote_id (chans p ! i)" "remote_id (chans p ! i) < 2 ^ 32"
    "0 \<le> local_id (chans p ! i)" "local_id (chans p ! i) < 2 ^ 32"
    "alive (peer p)" "\<not> closing (peer p)"
  shows "chan_write i data p =
           p\<lparr>chans := (chans p)[i := sock_write data (chans p ! i)],
             peer := (peer p)\<lparr>out := out (peer p)
               @ [frame (ascii ''OKAY'') (remote_id (chans p ! i)) (local_id (chans p ! i)) []]\<rparr>\<rparr>"
proof -
  let ?ch = "sock_write data (chans p ! i)"
  let ?p1 = "p\<lparr>chans := (chans p)[i := ?ch]\<rparr>"
  have f: "sock ?ch = write_conn data (sock (chans p ! i))" "remote_id ?ch = remote_id (chans p ! i)"
    "local_id ?ch = local_id (chans p ! i)"
    by (simp_all add: sock_write_def)
  have d: "sock_drain ?ch = Some None"
    using assms(2,3,4) by (simp add: sock_drain_def f write_conn_def drain_def)
  have "write_end None i ?p1 =
          ?p1\<lparr>peer := (peer p)\<lparr>out := out (peer p)
               @ [frame (ascii ''OKAY'') (remote_id (chans p ! i)) (local_id (chans p ! i)) []]\<rparr>\<rparr>"
    unfolding write_end_def using assms(1,5-10) by (subst proxy_send_cmd_sent) (simp_all add: f)
  then show ?thesis
    using assms(1) d by (simp add: chan_write_def Let_def)
qed

lemma stalled_eq:
  "stalled =
     \<lparr>peer = \<lparr>inp = [],
              out = [banner (ascii ''dev1''), frame (ascii ''OKAY'') 1 7 [],
                     frame (ascii ''OKAY'') 1 7 []],
              closing = False, alive = True\<rparr>,
      device_id = ascii ''dev1'',
      streams = [1 \<mapsto> 0],
      next_remote_id = 2,
      chans = [\<lparr>name = ascii ''shell:ls'', local_id = 7, remote_id = 1,
                sock = close_conn (write_conn [120] (opened (ascii ''dev1'') (ascii ''shell:ls'') [])),
                closed = True, ready_to_send = 2, sink_task = Done, backlog = Some 1\<rparr>],
      rcvd = [(ascii ''CNXN'', 16777216, 262144, ascii ''host::'' @ [0]),
              (ascii ''OPEN'', 7, 0, ascii ''shell:ls'' @ [0]),
              (ascii ''WRTE'', 7, 1, [120]), (ascii ''CLSE'', 7, 1, [])],
      stage = Closing 0 (Some 1)\<rparr>"
proof -
  let ?clse = "frame (ascii ''CLSE'') 7 1 []"
  let ?o = "opened (ascii ''dev1'') (ascii ''shell:ls'') []"
  let ?r0 = "[(ascii ''CNXN'', 16777216, 262144, ascii ''host::'' @ [0]),
              (ascii ''OPEN'', 7, 0, ascii ''shell:ls'' @ [0])]"
  let ?p1 = "\<lparr>peer = \<lparr>inp = frame (ascii ''WRTE'') 7 1 [120] @ ?clse,
              out = [banner (ascii ''dev1''), frame (ascii ''OKAY'') 1 7 []],
              closing = False, alive = True\<rparr>,
      device_id = ascii ''dev1'', streams = [1 \<mapsto> 0], next_remote_id = 2,
      chans = [\<lparr>name = ascii ''shell:ls'', local_id = 7, remote_id = 1, sock = ?o,
                closed = False, ready_to_send = 1, sink_task = LoopHead, backlog = Some 0\<rparr>],
      rcvd = ?r0, stage = Dispatching\<rparr>"
  let ?p2 = "\<lparr>peer = \<lparr>inp = ?clse,
              out = [banner (ascii ''dev1''), frame (ascii ''OKAY'') 1 7 []],
              closing = False, alive = True\<rparr>,
      device_id = ascii ''dev1'', streams = [1 \<mapsto> 0], next_remote_id = 2,
      chans = [\<lparr>name = ascii ''shell:ls'', local_id = 7, remote_id = 1, sock = ?o,
                closed = False, ready_to_send = 1, sink_task = LoopHead, backlog = Some 0\<rparr>],
      rcvd = ?r0 @ [(ascii ''WRTE'', 7, 1, [120])], stage = Dispatching\<rparr>"
  let ?p3 = "\<lparr>peer = \<lparr>inp = ?clse,
              out = [banner (ascii ''dev1''), frame (ascii ''OKAY'') 1 7 [],
                     frame (ascii ''OKAY'') 1 7 []],
              closing = False, alive = True\<rparr>,
      device_id = ascii ''dev1'', streams = [1 \<mapsto> 0], next_remote_id = 2,
      chans = [\<lparr>name = ascii ''shell:ls'', local_id = 7, remote_id = 1,
                sock = write_conn [120] ?o,
                closed = False, ready_to_send = 1, sink_task = LoopHead, backlog = Some 1\<rparr>],
      rcvd = ?r0 @ [(ascii ''WRTE'', 7, 1, [120])], stage = Dispatching\<rparr>"
  let ?p4 = "\<lparr>peer = \<lparr>inp = [],
              out = [banner (ascii ''dev1''), frame (ascii ''OKAY'') 1 7 [],
                     frame (ascii ''OKAY'') 1 7 []],
              closing = False, alive = True\<rparr>,
      device_id = ascii ''dev1'', streams = [1 \<mapsto> 0], next_remote_id = 2,
      chans = [\<lparr>name = ascii ''shell:ls'', local_id = 7, remote_id = 1,
                sock = write_conn [120] ?o,
                closed = False, ready_to_send = 1, sink_task = LoopHead, backlog = Some 1\<rparr>],
      rcvd = ?r0 @ [(ascii ''WRTE'', 7, 1, [120]), (ascii ''CLSE'', 7, 1, [])],
      stage = Dispatching\<rparr>"
  have 1: "step (HostStall 0)
             (session (ascii ''shell:ls'') [] (frame (ascii ''WRTE'') 7 1 [120] @ ?clse)) = ?p1"
    by (simp add: session_def ProxyChannel_def release_def buffered_def)
  have r2: "recv_cmd (peer ?p1) = (Inr (ascii ''WRTE'', 7, 1, [120]), (peer ?p1)\<lparr>inp := ?clse\<rparr>)"
    by (rule recv_cmd_frame_bytes) simp_all
  have 2: "handle_connection None ?p1 = chan_write 0 [120] ?p2"
    by (subst handle_connection_wrte [OF _ r2]) simp_all
  have 3: "chan_write 0 [120] ?p2 = ?p3"
    by (subst chan_write_sent)
      (simp_all add: opened_def sock_write_def buffered_def high_water_def write_conn_def)
  have r3: "recv_cmd (peer ?p3) = (Inr (ascii ''CLSE'', 7, 1, []), (peer ?p3)\<lparr>inp := []\<rparr>)"
    by (rule recv_cmd_frame_bytes [where rest = "[]"]) simp_all
  have 4: "handle_connection None ?p3 = close_await (Some 1) 0 ?p4"
    by (subst handle_connection_clse [OF _ r3]) simp_all
  have "stalled = handle_connection None (handle_connection None (step (HostStall 0)
          (session (ascii ''shell:ls'') [] (frame (ascii ''WRTE'') 7 1 [120] @ ?clse))))"
    by (simp only: stalled_def exec_Cons exec_Nil step.simps(1))
  also have "\<dots> = close_await (Some 1) 0 ?p4"
    by (simp only: 1 2 3 4)
  finally show ?thesis
    by (simp add: close_await_def close_begin_unfold numeral_2_eq_2)
qed

text \<open>The steps of the sink task.\<close>

lemma read_eof:
  assumes "alive c" "inp c = []"
  shows "read n k c = (Inr [], c)"
proof -
  have "c\<lparr>inp := []\<rparr> = c" using assms(2) by (cases c) simp
  then show ?thesis using assms by (simp add: read_def Let_def)
qed

lemma sink_shell_eof:
  assumes "i < length (chans p)" "sink_task (chans p ! i) = Reading"
    "alive (sock (chans p ! i))" "inp (sock (chans p ! i)) = []"
    "startswith (name (chans p ! i)) (ascii ''shell:'')"
  shows "sink i k p = p\<lparr>chans := (chans p)[i := (chans p ! i)\<lparr>sink_task := Sleeping\<rparr>]\<rparr>"
proof -
  have "(chans p ! i)\<lparr>sock := sock (chans p ! i)\<rparr> = chans p ! i" by simp
  then show ?thesis
    using assms by (simp add: sink_def read_eof Let_def)
qed

lemma sink_sleeping:
  assumes "i < length (chans p)" "sink_task (chans p ! i) = Sleeping"
  shows "sink i k p = p\<lparr>chans := (chans p)[i := (chans p ! i)\<lparr>sink_task := LoopHead\<rparr>]\<rparr>"
  using assms by (simp add: sink_def)

lemma sink_loophead:
  assumes "i < length (chans p)" "sink_task (chans p ! i) = LoopHead" "\<not> closed (chans p ! i)"
  shows "sink i k p =
           (if ready_to_send (chans p ! i) = 0
            then p\<lparr>chans := (chans p)[i := (chans p ! i)\<lparr>sink_task := Acquire\<rparr>]\<rparr>
            else p\<lparr>chans := (chans p)[i := (chans p ! i)
                   \<lparr>ready_to_send := ready_to_send (chans p ! i) - 1, sink_task := Reading\<rparr>]\<rparr>)"
  using assms by (simp add: sink_def acquired_def Let_def)

lemma sink_acquire:
  assumes "i < length (chans p)" "sink_task (chans p ! i) = Acquire" "\<not> closed (chans p ! i)"
  shows "sink i k p =
           (if ready_to_send (chans p ! i) = 0 then p
            else p\<lparr>chans := (chans p)[i := (chans p ! i)
                   \<lparr>ready_to_send := ready_to_send (chans p ! i) - 1, sink_task := Reading\<rparr>]\<rparr>)"
  using assms by (simp add: sink_def acquired_def Let_def)

lemma startswith_shell: "startswith (ascii ''shell:ls'') (ascii ''shell:'')"
  by (simp add: startswith_def ascii_def)

text \<open>
  The session of a shell service that ends without output, after its sink task has taken
  the starter unit, read the end of file and slept: the task is at the head of its loop.
\<close>

lemma shell_session_pumped:
  "exec [Pump 0 0, Pump 0 0, Pump 0 0] (session (ascii ''shell:ls'') [] rest) =
     (session (ascii ''shell:ls'') [] rest)
       \<lparr>chans := [\<lparr>name = ascii ''shell:ls'', local_id = 7, remote_id = 1,
                   sock = opened (ascii ''dev1'') (ascii ''shell:ls'') [],
                   closed = False, ready_to_send = 0, sink_task = LoopHead,
                   backlog = None\<rparr>]\<rparr>"
proof -
  let ?s = "session (ascii ''shell:ls'') [] rest"
  let ?ch = "\<lparr>name = ascii ''shell:ls'', local_id = 7, remote_id = 1,
                     sock = opened (ascii ''dev1'') (ascii ''shell:ls'') [],
                     closed = False, ready_to_send = 0, sink_task = Reading, backlog = None\<rparr>"
  have 1: "sink 0 0 ?s = ?s\<lparr>chans := [?ch]\<rparr>"
    by (subst sink_loophead) (simp_all add: session_def ProxyChannel_def release_def)
  have 2: "sink 0 0 (?s\<lparr>chans := [?ch]\<rparr>) = ?s\<lparr>chans := [?ch\<lparr>sink_task := Sleeping\<rparr>]\<rparr>"
    by (subst sink_shell_eof) (simp_all add: session_def opened_def startswith_shell)
  have 3: "sink 0 0 (?s\<lparr>chans := [?ch\<lparr>sink_task := Sleeping\<rparr>]\<rparr>)
             = ?s\<lparr>chans := [?ch\<lparr>sink_task := LoopHead\<rparr>]\<rparr>"
    by (subst sink_sleeping) (simp_all add: session_def)
  have l: "0 < length (chans ?s)" by (simp add: session_def)
  have l': "0 < length (chans (?s\<lparr>chans := [?ch]\<rparr>))"
    "0 < length (chans (?s\<lparr>chans := [?ch\<lparr>sink_task := Sleeping\<rparr>]\<rparr>))" by simp_all
  have "exec [Pump 0 0, Pump 0 0, Pump 0 0] ?s
          = step (Pump 0 0) (step (Pump 0 0) (step (Pump 0 0) ?s))"
    by (simp only: exec_Cons exec_Nil)
  also have "\<dots> = ?s\<lparr>chans := [?ch\<lparr>sink_task := LoopHead\<rparr>]\<rparr>"
    by (simp only: step.simps l l' if_True 1 2 3)
  finally show ?thesis by simp
qed

text \<open>Where the handler is after a call that does not raise.\<close>

lemma stage_close_begin [simp]: "stage (close_begin i p) = stage p"
  by (simp add: close_begin_unfold)

lemma stage_after_close [simp]: "stage (after_close d p) = stage p"
  by (simp add: after_close_def split: option.splits)

lemma stage_close_await: "stage p \<noteq> Returned \<Longrightarrow> stage (close_await d i p) \<noteq> Returned"
  by (simp add: close_await_def)

lemma stage_write_end: "stage p \<noteq> Returned \<Longrightarrow> stage (write_end e i p) \<noteq> Returned"
proof (cases e)
  case (Some x)
  then show "stage p \<noteq> Returned \<Longrightarrow> ?thesis" by (simp add: write_end_def stage_close_await)
next
  case None
  obtain e2 p2 where s: "proxy_send_cmd (ascii ''OKAY'') (remote_id (chans p ! i))
      (local_id (chans p ! i)) [] p = (e2, p2)" by force
  note f = proxy_send_cmd_frame [OF s]
  show "stage p \<noteq> Returned \<Longrightarrow> ?thesis"
    using None s f(5) stage_close_await [of p2 None i]
    by (cases e2) (simp_all add: write_end_def)
qed

lemma stage_chan_write: "stage p \<noteq> Returned \<Longrightarrow> stage (chan_write i data p) \<noteq> Returned"
  using stage_write_end [of "p\<lparr>chans := (chans p)[i := sock_write data (chans p ! i)]\<rparr>"]
  by (simp add: chan_write_def Let_def split: option.splits)

text \<open>
  An iteration of the loop of \<open>run\<close> that raises leaves every channel as it was; at most a
  channel was added, with its entry in the table.
\<close>

lemma run_loop_raises:
  assumes "run_loop host p = (Some e, p')" "table_ok p" "ids_ok p"
  shows "(\<forall>i < length (chans p). chans p' ! i = chans p ! i)
       \<and> length (chans p) \<le> length (chans p')
       \<and> (\<forall>r i. streams p r = Some i \<longrightarrow> streams p' r = Some i)
       \<and> closing (peer p') = closing (peer p)"
proof -
  obtain res r where rc: "recv_cmd (peer p) = (res, r)" by force
  note conn = recv_cmd_conn [OF rc]
  show ?thesis
  proof (cases res)
    case (Inl x)
    then have "p' = p\<lparr>peer := r\<rparr>" using assms(1) rc by (simp add: run_loop_def)
    then show ?thesis using conn by simp
  next
    case (Inr f)
    obtain cmd lid rid data where f: "f = (cmd, lid, rid, data)" by (cases f) auto
    let ?p1 = "p\<lparr>peer := r, rcvd := rcvd p @ [(cmd, lid, rid, data)]\<rparr>"
    note rl = assms(1) [unfolded run_loop_def rc Inr f, simplified]
    consider (op) "cmd = ascii ''OPEN''" | (wr) "cmd = ascii ''WRTE''" | (ok) "cmd = ascii ''OKAY''"
      | (cl) "cmd = ascii ''CLSE''"
      | (other) "cmd \<noteq> ascii ''OPEN''" "cmd \<noteq> ascii ''WRTE''" "cmd \<noteq> ascii ''OKAY''"
          "cmd \<noteq> ascii ''CLSE''"
      by blast
    then show ?thesis
    proof cases
      case op
      show ?thesis
      proof (cases "decode (rstrip_nul data)")
        case (Inl x)
        then have "p' = ?p1" using rl op by simp
        then show ?thesis using conn by simp
      next
        case (Inr destination)
        let ?n = "next_remote_id p"
        let ?p2 = "?p1\<lparr>next_remote_id := ?n + 1\<rparr>"
        show ?thesis
        proof (cases "open_client_stream host (device_id p) destination")
          case (Inl x)
          then have "proxy_send_cmd (ascii ''CLSE'') lid 0 [] ?p2 = (Some e, p')"
            using rl op Inr by (simp add: Let_def)
          from proxy_send_cmd_frame [OF this] show ?thesis using conn by simp
        next
          case s: (Inr s)
          let ?p3 = "?p1\<lparr>next_remote_id := ?n + 1,
                        chans := chans ?p1 @ [ProxyChannel destination lid ?n s],
                        streams := (streams ?p1)(?n \<mapsto> length (chans ?p1))\<rparr>"
          obtain e4 p4 where s4: "proxy_send_cmd (ascii ''OKAY'') ?n lid [] ?p3 = (e4, p4)"
            by force
          note f4 = proxy_send_cmd_frame [OF s4]
          have n: "streams p r' = Some i \<Longrightarrow> r' \<noteq> ?n" for r' i
            using assms(2,3) ids_below(2) [OF assms(3), of i] by (auto simp: table_ok_def)
          have k: "(\<forall>i < length (chans p). chans p4 ! i = chans p ! i)
               \<and> length (chans p) \<le> length (chans p4)
               \<and> (\<forall>r i. streams p r = Some i \<longrightarrow> streams p4 r = Some i)
               \<and> closing (peer p4) = closing (peer p)"
            using f4 conn n by (auto simp: nth_append)
          show ?thesis
          proof (cases e4)
            case None
            then show ?thesis using rl op Inr s s4 by (simp add: Let_def)
          next
            case (Some x)
            then have "proxy_send_cmd (ascii ''CLSE'') lid 0 [] p4 = (Some e, p')"
              using rl op Inr s s4 by (simp add: Let_def)
            from proxy_send_cmd_frame [OF this] k show ?thesis by simp
          qed
        qed
      qed
    next
      case wr
      then show ?thesis
        using rl by (simp add: Let_def ascii_tags ascii_tags [symmetric] split: option.splits)
    next
      case ok
      then show ?thesis
        using rl by (simp add: Let_def ascii_tags ascii_tags [symmetric] split: option.splits)
    next
      case cl
      show ?thesis
      proof (cases "streams p rid")
        case None
        then have "proxy_send_cmd (ascii ''CLSE'') lid 0 [] ?p1 = (Some e, p')"
          using rl cl by (simp add: ascii_tags ascii_tags [symmetric])
        from proxy_send_cmd_frame [OF this] show ?thesis using conn by simp
      next
        case (Some i)
        then show ?thesis using rl cl by (simp add: Let_def ascii_tags ascii_tags [symmetric])
      qed
    next
      case other
      then show ?thesis using rl by simp
    qed
  qed
qed

lemma run_loop_returns:
  assumes "run_loop host p = (None, p')" "stage p \<noteq> Returned"
  shows "stage p' \<noteq> Returned"
proof -
  obtain res r where rc: "recv_cmd (peer p) = (res, r)" by force
  show ?thesis
  proof (cases res)
    case (Inl x)
    then show ?thesis using assms(1) rc by (simp add: run_loop_def)
  next
    case (Inr f)
    obtain cmd lid rid data where f: "f = (cmd, lid, rid, data)" by (cases f) auto
    let ?p1 = "p\<lparr>peer := r, rcvd := rcvd p @ [(cmd, lid, rid, data)]\<rparr>"
    have s1: "stage ?p1 \<noteq> Returned" using assms(2) by simp
    note rl = assms(1) [unfolded run_loop_def rc Inr f, simplified]
    have send: "proxy_send_cmd c a b d q = (x, p') \<Longrightarrow> stage q = stage p \<Longrightarrow> ?thesis" for c a b d q x
      using proxy_send_cmd_frame(5) [of c a b d q x p'] assms(2) by simp
    consider (op) "cmd = ascii ''OPEN''" | (wr) "cmd = ascii ''WRTE''" | (ok) "cmd = ascii ''OKAY''"
      | (cl) "cmd = ascii ''CLSE''"
      | (other) "cmd \<noteq> ascii ''OPEN''" "cmd \<noteq> ascii ''WRTE''" "cmd \<noteq> ascii ''OKAY''"
          "cmd \<noteq> ascii ''CLSE''"
      by blast
    then show ?thesis
    proof cases
      case op
      show ?thesis
      proof (cases "decode (rstrip_nul data)")
        case (Inl x)
        then show ?thesis using rl op by simp
      next
        case (Inr destination)
        let ?n = "next_remote_id p"
        show ?thesis
        proof (cases "open_client_stream host (device_id p) destination")
          case (Inl x)
          then show ?thesis using rl op Inr send by (simp add: Let_def)
        next
          case s: (Inr s)
          let ?p3 = "?p1\<lparr>next_remote_id := ?n + 1,
                        chans := chans ?p1 @ [ProxyChannel destination lid ?n s],
                        streams := (streams ?p1)(?n \<mapsto> length (chans ?p1))\<rparr>"
          obtain e4 p4 where s4: "proxy_send_cmd (ascii ''OKAY'') ?n lid [] ?p3 = (e4, p4)"
            by force
          note f4 = proxy_send_cmd_frame [OF s4]
          show ?thesis
          proof (cases e4)
            case None
            then show ?thesis using rl op Inr s s4 f4(5) assms(2) by (simp add: Let_def)
          next
            case (Some x)
            then have "proxy_send_cmd (ascii ''CLSE'') lid 0 [] p4 = (None, p')"
              using rl op Inr s s4 by (simp add: Let_def)
            from send [OF this] f4(5) show ?thesis by simp
          qed
        qed
      qed
    next
      case wr
      then show ?thesis
        using rl s1 stage_chan_write [of ?p1]
        by (auto simp: Let_def ascii_tags ascii_tags [symmetric] split: option.splits)
    next
      case ok
      then show ?thesis
        using rl s1
        by (auto simp: Let_def ready_def ascii_tags ascii_tags [symmetric] split: option.splits)
    next
      case cl
      then show ?thesis
        using rl s1 stage_close_await [of ?p1] send
        by (auto simp: Let_def ascii_tags ascii_tags [symmetric] split: option.splits)
    next
      case other
      then show ?thesis using rl s1 by simp
    qed
  qed
qed

text \<open>
  A session for \<open>shell:ls\<close> whose client has nothing more to send, after the sink task has
  taken the starter unit and is reading.
\<close>

lemma session_reading:
  "exec [Frame None, Frame (Some (new_conn (ascii ''OKAY'' @ ascii ''OKAY'' @ data))), Pump 0 0]
     (AdbDeviceProxy (hello @ frame (ascii ''OPEN'') 7 0 (ascii ''shell:ls'' @ [0]))
        (ascii ''dev1''))
   = (session (ascii ''shell:ls'') data [])
       \<lparr>chans := [\<lparr>name = ascii ''shell:ls'', local_id = 7, remote_id = 1,
                   sock = opened (ascii ''dev1'') (ascii ''shell:ls'') data,
                   closed = False, ready_to_send = 0, sink_task = Reading,
                   backlog = None\<rparr>]\<rparr>"
proof -
  let ?s = "session (ascii ''shell:ls'') data []"
  have e: "exec [Frame None, Frame (Some (new_conn (ascii ''OKAY'' @ ascii ''OKAY'' @ data)))]
          (AdbDeviceProxy (hello @ frame (ascii ''OPEN'') 7 0 (ascii ''shell:ls'' @ [0]) @ [])
             (ascii ''dev1'')) = ?s"
    by (rule exec_session) (simp_all add: decode_shell)
  have 1: "sink 0 0 ?s = ?s\<lparr>chans := [\<lparr>name = ascii ''shell:ls'', local_id = 7, remote_id = 1,
                   sock = opened (ascii ''dev1'') (ascii ''shell:ls'') data,
                   closed = False, ready_to_send = 0, sink_task = Reading,
                   backlog = None\<rparr>]\<rparr>"
    by (subst sink_loophead) (simp_all add: session_def ProxyChannel_def release_def)
  have l: "0 < length (chans ?s)" by (simp add: session_def)
  have "exec ([Frame None, Frame (Some (new_conn (ascii ''OKAY'' @ ascii ''OKAY'' @ data)))]
          @ [Pump 0 0])
          (AdbDeviceProxy (hello @ frame (ascii ''OPEN'') 7 0 (ascii ''shell:ls'' @ [0]))
             (ascii ''dev1'')) = step (Pump 0 0) ?s"
    by (simp only: exec_snoc e [unfolded append_Nil2])
  then show ?thesis using 1 l by simp
qed

lemma session_reading_eof:
  "handle_connection host
     ((session (ascii ''shell:ls'') data [])
       \<lparr>chans := [\<lparr>name = ascii ''shell:ls'', local_id = 7, remote_id = 1,
                   sock = opened (ascii ''dev1'') (ascii ''shell:ls'') data,
                   closed = False, ready_to_send = 0, sink_task = Reading,
                   backlog = None\<rparr>]\<rparr>)
   = (session (ascii ''shell:ls'') data [])
       \<lparr>chans := [\<lparr>name = ascii ''shell:ls'', local_id = 7, remote_id = 1,
                   sock = opened (ascii ''dev1'') (ascii ''shell:ls'') data,
                   closed = False, ready_to_send = 0, sink_task = Reading,
                   backlog = None\<rparr>],
        peer := \<lparr>inp = [], out = [banner (ascii ''dev1''), frame (ascii ''OKAY'') 1 7 []],
                 closing = True, alive = True\<rparr>,
        stage := Returned\<rparr>"
  by (subst handle_connection_raise [where e = IncompleteReadError
        and r = "\<lparr>inp = [], out = [banner (ascii ''dev1''), frame (ascii ''OKAY'') 1 7 []],
                  closing = False, alive = True\<rparr>"])
    (simp_all add: session_def recv_cmd_eof close_conn_def)

lemma session_terminated:
  "exec [Frame None, Frame (Some (new_conn (ascii ''OKAY'' @ ascii ''OKAY'' @ data))), Pump 0 0,
         Frame None]
     (AdbDeviceProxy (hello @ frame (ascii ''OPEN'') 7 0 (ascii ''shell:ls'' @ [0]))
        (ascii ''dev1''))
   = (session (ascii ''shell:ls'') data [])
       \<lparr>chans := [\<lparr>name = ascii ''shell:ls'', local_id = 7, remote_id = 1,
                   sock = opened (ascii ''dev1'') (ascii ''shell:ls'') data,
                   closed = False, ready_to_send = 0, sink_task = Reading,
                   backlog = None\<rparr>],
        peer := \<lparr>inp = [], out = [banner (ascii ''dev1''), frame (ascii ''OKAY'') 1 7 []],
                 closing = True, alive = True\<rparr>,
        stage := Returned\<rparr>"
proof -
  let ?evs = "[Frame None, Frame (Some (new_conn (ascii ''OKAY'' @ ascii ''OKAY'' @ data))),
               Pump 0 0]"
  let ?init = "AdbDeviceProxy (hello @ frame (ascii ''OPEN'') 7 0 (ascii ''shell:ls'' @ [0]))
         (ascii ''dev1'')"
  have "exec (?evs @ [Frame None]) ?init = handle_connection None (exec ?evs ?init)"
    by (simp only: exec_snoc step.simps)
  then show ?thesis
    by (simp only: session_reading session_reading_eof append.simps)
qed

text \<open>The table is changed by the \<open>OPEN\<close> and \<open>CLSE\<close> branches of \<open>run\<close> only.\<close>

lemma streams_close_begin [simp]: "streams (close_begin i p) = streams p"
  by (simp add: close_begin_unfold)

lemma streams_close_await_None [simp]: "streams (close_await None i p) = streams p"
  by (simp add: close_await_def after_close_def)

lemma streams_write_end [simp]: "streams (write_end e i p) = streams p"
proof (cases e)
  case (Some x)
  then show ?thesis by (simp add: write_end_def)
next
  case None
  obtain e2 p2 where s: "proxy_send_cmd (ascii ''OKAY'') (remote_id (chans p ! i))
      (local_id (chans p ! i)) [] p = (e2, p2)" by force
  note f = proxy_send_cmd_frame [OF s]
  show ?thesis
    using None s f(2) by (cases e2) (simp_all add: write_end_def)
qed

lemma streams_chan_write [simp]: "streams (chan_write i data p) = streams p"
  by (simp add: chan_write_def Let_def split: option.splits)




lemma okay_rcvd_eval:
  "okay_rcvd r (p\<lparr>rcvd := fs\<rparr>)
     = length (filter (\<lambda>(cmd, arg0, arg1, data). cmd = ascii ''OKAY'' \<and> arg1 = r) fs)"
  by (simp add: okay_rcvd_def)



text \<open>The sink task of a silent session stays suspended in \<open>acquire\<close>.\<close>

lemma silent_shell_session:
  "map (\<lambda>ch. (sink_task ch, ready_to_send ch, closed ch))
     (chans (exec ([Frame None, Frame (Some (new_conn (ascii ''OKAY'' @ ascii ''OKAY'')))]
                   @ replicate (4 + n) (Pump 0 0))
        (AdbDeviceProxy (hello @ frame (ascii ''OPEN'') 7 0 (ascii ''shell:ls'' @ [0]))
           (ascii ''dev1''))))
     = [(Acquire, 0, False)]"
proof -
  let ?s = "session (ascii ''shell:ls'') [] []"
  let ?ch = "\<lparr>name = ascii ''shell:ls'', local_id = 7, remote_id = 1,
                     sock = opened (ascii ''dev1'') (ascii ''shell:ls'') [],
                     closed = False, ready_to_send = 0, sink_task = LoopHead, backlog = None\<rparr>"
  let ?q = "?s\<lparr>chans := [?ch\<lparr>sink_task := Acquire\<rparr>]\<rparr>"
  have e: "exec [Frame None, Frame (Some (new_conn (ascii ''OKAY'' @ ascii ''OKAY'' @ [])))]
          (AdbDeviceProxy (hello @ frame (ascii ''OPEN'') 7 0 (ascii ''shell:ls'' @ [0]) @ [])
             (ascii ''dev1'')) = ?s"
    by (rule exec_session) (simp_all add: decode_shell)
  have 4: "sink 0 0 (?s\<lparr>chans := [?ch]\<rparr>) = ?q"
    by (subst sink_loophead) (simp_all add: session_def)
  have 5: "sink 0 0 ?q = ?q"
    by (subst sink_acquire) (simp_all add: session_def)
  have l: "length (chans ?q) = 1" "length (chans ?s) = 1" by (simp_all add: session_def)
  have r: "exec (replicate n (Pump 0 0)) ?q = ?q"
  proof (induction n)
    case 0
    show ?case by (simp add: exec_def)
  next
    case (Suc n)
    have "exec (replicate (Suc n) (Pump 0 0)) ?q = exec (replicate n (Pump 0 0)) (step (Pump 0 0) ?q)"
      by (simp add: exec_Cons)
    then show ?case using Suc 5 l by simp
  qed
  have "exec ([Pump 0 0, Pump 0 0, Pump 0 0] @ [Pump 0 0]) ?s = ?q"
    unfolding exec_snoc shell_session_pumped using 4 l by simp
  then have "exec (replicate 4 (Pump 0 0)) ?s = ?q"
    by (simp add: numeral_eq_Suc)
  then have "exec (replicate (4 + n) (Pump 0 0)) ?s = ?q"
    using r by (simp add: replicate_add exec_append)
  then have "exec ([Frame None, Frame (Some (new_conn (ascii ''OKAY'' @ ascii ''OKAY'')))]
                   @ replicate (4 + n) (Pump 0 0))
        (AdbDeviceProxy (hello @ frame (ascii ''OPEN'') 7 0 (ascii ''shell:ls'' @ [0]))
           (ascii ''dev1'')) = ?q"
    by (simp only: exec_append e [unfolded append_Nil2])
  then show ?thesis
    by (simp only:) simp
qed

lemma same_ids_refl [simp]: "same_ids p p"
  by (simp add: same_ids_def)



lemma same_ids_fields [simp]:
  "same_ids p (p\<lparr>stage := s\<rparr>)" "same_ids p (p\<lparr>streams := t\<rparr>)" "same_ids p (p\<lparr>peer := w\<rparr>)"
  by (simp_all add: same_ids_def)

lemma same_ids_stage [simp]: "same_ids p (q\<lparr>stage := s\<rparr>) = same_ids p q"
  by (simp add: same_ids_def)




















lemma opens_fields [simp]:
  "opens (p\<lparr>peer := w\<rparr>) = opens p" "opens (p\<lparr>next_remote_id := n\<rparr>) = opens p"
  "opens (p\<lparr>chans := cs\<rparr>) = opens p" "opens (p\<lparr>streams := t\<rparr>) = opens p"
  "opens (p\<lparr>stage := s\<rparr>) = opens p"
  by (simp_all add: opens_def)







text \<open>
  Claim C5. \<open>ProxyChannel.close\<close> is idempotent: on a closed channel it returns without any
  change and without a frame, to the sink task and to the task of \<open>run\<close> alike, and after
  any call the channel is closed. A first call marks the channel closed, releases one unit,
  ends the sink task and closes the writer of the service connection; it then waits in
  \<open>wait_closed\<close>, and at last sends \<open>CLSE(remote_id, local_id)\<close>. The call of the sink
  task does not stay in that wait: it sends the frame at once and raises exactly when
  \<open>send_cmd\<close> raises, that is when the client connection is lost or closed (the ids being
  32-bit). The call of \<open>run\<close> is suspended there: while the service connection is alive
  with bytes in its write buffer the handler stays where it is and nothing is sent; once
  that is over it sends the frame, and then either goes on with its loop, or, \<open>send_cmd\<close>
  having raised, returns.
\<close>

theorem close_idempotent:
  assumes "i < length (chans p)"
  shows "(closed (chans p ! i) \<longrightarrow> close i p = (None, p) \<and> close_await d i p = after_close d p)
       \<and> closed (chans (snd (close i p)) ! i)
       \<and> close i (snd (close i p)) = (None, snd (close i p))
       \<and> closed (chans (close_await d i p) ! i)
       \<and> (\<not> closed (chans p ! i) \<longrightarrow>
            close_await d i p =
              p\<lparr>chans := (chans p)[i := (chans p ! i)\<lparr>closed := True,
                    ready_to_send := Suc (ready_to_send (chans p ! i)), sink_task := Done,
                    sock := close_conn (sock (chans p ! i))\<rparr>],
                stage := Closing i d\<rparr>)
       \<and> (\<not> closed (chans p ! i)
            \<and> 0 \<le> remote_id (chans p ! i) \<and> remote_id (chans p ! i) < 2 ^ 32
            \<and> 0 \<le> local_id (chans p ! i) \<and> local_id (chans p ! i) < 2 ^ 32 \<longrightarrow>
          close i p =
            (if alive (peer p) \<and> \<not> closing (peer p) then None else Some ConnectionResetError,
             p\<lparr>chans := (chans p)[i := (chans p ! i)\<lparr>closed := True,
                   ready_to_send := Suc (ready_to_send (chans p ! i)), sink_task := Done,
                   sock := close_conn (sock (chans p ! i))\<rparr>],
               peer := (peer p)\<lparr>out := out (peer p)
                 @ [frame (ascii ''CLSE'') (remote_id (chans p ! i)) (local_id (chans p ! i))
                      []]\<rparr>\<rparr>))
       \<and> (stage p = Closing i d \<and> alive (sock (chans p ! i)) \<and> 0 < buffered (chans p ! i) \<longrightarrow>
            handle_connection host p = p)
       \<and> (stage p = Closing i d \<and> \<not> (alive (sock (chans p ! i)) \<and> 0 < buffered (chans p ! i))
            \<and> 0 \<le> remote_id (chans p ! i) \<and> remote_id (chans p ! i) < 2 ^ 32
            \<and> 0 \<le> local_id (chans p ! i) \<and> local_id (chans p ! i) < 2 ^ 32 \<longrightarrow>
          handle_connection host p =
            (if alive (peer p) \<and> \<not> closing (peer p)
             then after_close d
                    (p\<lparr>peer := (peer p)\<lparr>out := out (peer p)
                         @ [frame (ascii ''CLSE'') (remote_id (chans p ! i))
                              (local_id (chans p ! i)) []]\<rparr>,
                       stage := Dispatching\<rparr>)
             else p\<lparr>peer := close_conn ((peer p)\<lparr>out := out (peer p)
                         @ [frame (ascii ''CLSE'') (remote_id (chans p ! i))
                              (local_id (chans p ! i)) []]\<rparr>),
                    stage := Returned\<rparr>))"
proof -
  have 1: "closed (chans p ! i) \<longrightarrow> close i p = (None, p) \<and> close_await d i p = after_close d p"
    by (simp add: close_def close_await_def)
  have 2: "closed (chans (snd (close i p)) ! i)"
    using close_closed [OF _ assms, of "fst (close i p)" "snd (close i p)"] by simp
  have 3: "close i (snd (close i p)) = (None, snd (close i p))"
    using 2 by (simp add: close_def)
  have 4: "closed (chans (close_await d i p) ! i)"
    using assms by (simp add: close_await_def after_close_def close_begin_unfold split: option.splits)
  have 5: "\<not> closed (chans p ! i) \<longrightarrow>
            close_await d i p =
              p\<lparr>chans := (chans p)[i := (chans p ! i)\<lparr>closed := True,
                    ready_to_send := Suc (ready_to_send (chans p ! i)), sink_task := Done,
                    sock := close_conn (sock (chans p ! i))\<rparr>],
                stage := Closing i d\<rparr>"
    by (simp add: close_await_def close_begin_unfold)
  note 6 = close_sent [of p i, OF _ assms]
  have 7: "stage p = Closing i d \<and> alive (sock (chans p ! i)) \<and> 0 < buffered (chans p ! i) \<longrightarrow>
            handle_connection host p = p"
    by (simp add: handle_connection_closing)
  have 8: "stage p = Closing i d \<and> \<not> (alive (sock (chans p ! i)) \<and> 0 < buffered (chans p ! i))
            \<and> 0 \<le> remote_id (chans p ! i) \<and> remote_id (chans p ! i) < 2 ^ 32
            \<and> 0 \<le> local_id (chans p ! i) \<and> local_id (chans p ! i) < 2 ^ 32 \<longrightarrow>
          handle_connection host p =
            (if alive (peer p) \<and> \<not> closing (peer p)
             then after_close d
                    (p\<lparr>peer := (peer p)\<lparr>out := out (peer p)
                         @ [frame (ascii ''CLSE'') (remote_id (chans p ! i))
                              (local_id (chans p ! i)) []]\<rparr>,
                       stage := Dispatching\<rparr>)
             else p\<lparr>peer := close_conn ((peer p)\<lparr>out := out (peer p)
                         @ [frame (ascii ''CLSE'') (remote_id (chans p ! i))
                              (local_id (chans p ! i)) []]\<rparr>),
                    stage := Returned\<rparr>)"
    by (auto simp: handle_connection_closing close_end_sent)
  from 1 2 3 4 5 6 7 8 show ?thesis by blast
qed

theorem close_idempotent_witness:
  "close 0 (session (ascii ''shell:ls'') [] []) =
     (None, (session (ascii ''shell:ls'') [] [])
        \<lparr>chans := [\<lparr>name = ascii ''shell:ls'', local_id = 7, remote_id = 1,
                    sock = close_conn (opened (ascii ''dev1'') (ascii ''shell:ls'') []),
                    closed = True, ready_to_send = 2, sink_task = Done, backlog = None\<rparr>],
          peer := \<lparr>inp = [],
                   out = [banner (ascii ''dev1''), frame (ascii ''OKAY'') 1 7 [],
                          frame (ascii ''CLSE'') 1 7 []],
                   closing = False, alive = True\<rparr>\<rparr>)
   \<and> close 0 (snd (close 0 (session (ascii ''shell:ls'') [] [])))
       = (None, snd (close 0 (session (ascii ''shell:ls'') [] [])))
   \<and> stage stalled = Closing 0 (Some 1)
   \<and> out (peer stalled)
       = [banner (ascii ''dev1''), frame (ascii ''OKAY'') 1 7 [], frame (ascii ''OKAY'') 1 7 []]
   \<and> handle_connection None stalled = stalled
   \<and> close 0 stalled = (None, stalled)
   \<and> handle_connection None (step (HostFlush 0) stalled) =
       (step (HostFlush 0) stalled)
         \<lparr>peer := \<lparr>inp = [],
                   out = [banner (ascii ''dev1''), frame (ascii ''OKAY'') 1 7 [],
                          frame (ascii ''OKAY'') 1 7 [], frame (ascii ''CLSE'') 1 7 []],
                   closing = False, alive = True\<rparr>,
          streams := Map.empty, stage := Dispatching\<rparr>"
proof -
  let ?s = "session (ascii ''shell:ls'') [] []"
  have c: "close 0 ?s =
     (None, ?s
        \<lparr>chans := [\<lparr>name = ascii ''shell:ls'', local_id = 7, remote_id = 1,
                    sock = close_conn (opened (ascii ''dev1'') (ascii ''shell:ls'') []),
                    closed = True, ready_to_send = 2, sink_task = Done, backlog = None\<rparr>],
          peer := \<lparr>inp = [],
                   out = [banner (ascii ''dev1''), frame (ascii ''OKAY'') 1 7 [],
                          frame (ascii ''CLSE'') 1 7 []],
                   closing = False, alive = True\<rparr>\<rparr>)"
    using close_idempotent [of 0 ?s]
    by (simp add: session_def ProxyChannel_def release_def)
  have a: "close 0 (snd (close 0 ?s)) = (None, snd (close 0 ?s))"
    using close_idempotent [of 0 ?s] by (simp add: session_def)
  have w: "handle_connection None stalled = stalled \<and> close 0 stalled = (None, stalled)"
    using close_idempotent [of 0 stalled "Some 1" None]
    by (simp add: stalled_eq buffered_def close_conn_def write_conn_def opened_def)
  have f: "handle_connection None (step (HostFlush 0) stalled) =
       (step (HostFlush 0) stalled)
         \<lparr>peer := \<lparr>inp = [],
                   out = [banner (ascii ''dev1''), frame (ascii ''OKAY'') 1 7 [],
                          frame (ascii ''OKAY'') 1 7 [], frame (ascii ''CLSE'') 1 7 []],
                   closing = False, alive = True\<rparr>,
          streams := Map.empty, stage := Dispatching\<rparr>"
    using close_idempotent [of 0 "step (HostFlush 0) stalled" "Some 1" None]
    by (simp add: stalled_eq buffered_def after_close_def)
  from c a w f show ?thesis by (simp add: stalled_eq)
qed

text \<open>
  After the client has reset its connection, \<open>close\<close> of the open channel raises: the
  channel is marked closed, and \<open>send_cmd\<close> of \<open>CLSE\<close> fails outside the \<open>try\<close>.
\<close>

theorem close_raises:
  "fst (close 0 (exec [Frame None,
                       Frame (Some (new_conn (ascii ''OKAY'' @ ascii ''OKAY''))), PeerReset]
          (AdbDeviceProxy (hello @ frame (ascii ''OPEN'') 7 0 (ascii ''shell:ls'' @ [0]))
             (ascii ''dev1''))))
     = Some ConnectionResetError"
proof -
  have "exec ([Frame None, Frame (Some (new_conn (ascii ''OKAY'' @ ascii ''OKAY'' @ [])))]
           @ [PeerReset])
          (AdbDeviceProxy (hello @ frame (ascii ''OPEN'') 7 0 (ascii ''shell:ls'' @ [0]) @ [])
             (ascii ''dev1''))
        = step PeerReset (session (ascii ''shell:ls'') [] [])"
    unfolding exec_snoc by (subst exec_session) (simp_all add: decode_shell)
  then show ?thesis
    by (simp add: close_sent session_def ProxyChannel_def release_def)
qed

text \<open>
  Claim C2. The sink task of a channel whose name starts with \<open>shell:\<close>, when its read
  returns no bytes at end of file: it sends nothing and closes nothing and goes to sleep;
  after the pause it is back at the head of its loop; there it needs a further unit of the
  semaphore: with none it is suspended in \<open>acquire\<close>, where it stays for as long as there
  is none, and otherwise it takes one unit away and reads again.
\<close>

theorem shell_eof_needs_credit:
  assumes "i < length (chans p)" "sink_task (chans p ! i) = Reading"
    "\<not> closed (chans p ! i)" "alive (sock (chans p ! i))" "inp (sock (chans p ! i)) = []"
    "startswith (name (chans p ! i)) (ascii ''shell:'')"
  shows "sink i k p = p\<lparr>chans := (chans p)[i := (chans p ! i)\<lparr>sink_task := Sleeping\<rparr>]\<rparr>
       \<and> sink i k' (sink i k p)
           = p\<lparr>chans := (chans p)[i := (chans p ! i)\<lparr>sink_task := LoopHead\<rparr>]\<rparr>
       \<and> sink i k'' (sink i k' (sink i k p))
           = (if ready_to_send (chans p ! i) = 0
              then p\<lparr>chans := (chans p)[i := (chans p ! i)\<lparr>sink_task := Acquire\<rparr>]\<rparr>
              else p\<lparr>chans := (chans p)[i := (chans p ! i)
                     \<lparr>ready_to_send := ready_to_send (chans p ! i) - 1,
                      sink_task := Reading\<rparr>]\<rparr>)
       \<and> (ready_to_send (chans p ! i) = 0 \<longrightarrow>
            sink i k''' (sink i k'' (sink i k' (sink i k p)))
              = sink i k'' (sink i k' (sink i k p)))"
proof -
  let ?ch = "chans p ! i"
  have 1: "sink i k p = p\<lparr>chans := (chans p)[i := ?ch\<lparr>sink_task := Sleeping\<rparr>]\<rparr>"
    by (rule sink_shell_eof [OF assms(1,2,4,5,6)])
  have 2: "sink i k' (sink i k p) = p\<lparr>chans := (chans p)[i := ?ch\<lparr>sink_task := LoopHead\<rparr>]\<rparr>"
    unfolding 1 using assms(1) by (subst sink_sleeping) simp_all
  have 3: "sink i k'' (sink i k' (sink i k p))
           = (if ready_to_send ?ch = 0
              then p\<lparr>chans := (chans p)[i := ?ch\<lparr>sink_task := Acquire\<rparr>]\<rparr>
              else p\<lparr>chans := (chans p)[i := ?ch\<lparr>ready_to_send := ready_to_send ?ch - 1,
                      sink_task := Reading\<rparr>]\<rparr>)"
    unfolding 2 using assms(1,3) by (subst sink_loophead) simp_all
  have 4: "ready_to_send ?ch = 0 \<longrightarrow>
            sink i k''' (sink i k'' (sink i k' (sink i k p)))
              = sink i k'' (sink i k' (sink i k p))"
    unfolding 3 using assms(1,3) by (auto simp: sink_acquire)
  from 1 2 3 4 show ?thesis by blast
qed

theorem shell_eof_needs_credit_witness:
  "sink 0 0 (sink 0 0 (sink 0 0 (sink 0 0 (session (ascii ''shell:ls'') [] []))))
     = (session (ascii ''shell:ls'') [] [])
         \<lparr>chans := [\<lparr>name = ascii ''shell:ls'', local_id = 7, remote_id = 1,
                     sock = opened (ascii ''dev1'') (ascii ''shell:ls'') [],
                     closed = False, ready_to_send = 0, sink_task = Acquire,
                     backlog = None\<rparr>]\<rparr>"
proof -
  let ?s = "session (ascii ''shell:ls'') [] []"
  let ?ch = "\<lparr>name = ascii ''shell:ls'', local_id = 7, remote_id = 1,
                     sock = opened (ascii ''dev1'') (ascii ''shell:ls'') [],
                     closed = False, ready_to_send = 0, sink_task = Reading,
                     backlog = None\<rparr>"
  let ?p = "?s\<lparr>chans := [?ch]\<rparr>"
  have p: "sink 0 0 ?s = ?p"
    by (subst sink_loophead) (simp_all add: session_def ProxyChannel_def release_def)
  have h: "0 < length (chans ?p)" "sink_task (chans ?p ! 0) = Reading" "\<not> closed (chans ?p ! 0)"
    "alive (sock (chans ?p ! 0))" "inp (sock (chans ?p ! 0)) = []"
    "startswith (name (chans ?p ! 0)) (ascii ''shell:'')"
    by (simp_all add: opened_def startswith_shell)
  note t = shell_eof_needs_credit [of 0 ?p 0 0 0 0, OF h]
  from t [THEN conjunct2, THEN conjunct2, THEN conjunct1]
  have "sink 0 0 (sink 0 0 (sink 0 0 ?p)) = ?s\<lparr>chans := [?ch\<lparr>sink_task := Acquire\<rparr>]\<rparr>"
    by simp
  then show ?thesis by (simp add: p)
qed

text \<open>
  A shell service that ends without output, and a client that is silent: the sink task
  takes the starter unit, reads the end of file, sleeps, and is then suspended in
  \<open>acquire\<close> with an empty semaphore; it does not read again, however often it is
  scheduled.
\<close>

theorem shell_eof_blocks:
  "\<forall>n. map (\<lambda>ch. (sink_task ch, ready_to_send ch, closed ch))
     (chans (exec ([Frame None, Frame (Some (new_conn (ascii ''OKAY'' @ ascii ''OKAY'')))]
                   @ replicate (4 + n) (Pump 0 0))
        (AdbDeviceProxy (hello @ frame (ascii ''OPEN'') 7 0 (ascii ''shell:ls'' @ [0]))
           (ascii ''dev1''))))
     = [(Acquire, 0, False)]"
  by (intro allI) (rule silent_shell_session)

text \<open>
  Claim C3. When \<open>handle_connection\<close> returns, from any state an execution reaches, the
  writer of the client connection has been closed, and that is all: every channel is as
  it was before, not closed and its sink task not cancelled if they were not, and every
  entry of the table is still there; afterwards the handler does nothing more. When the
  cause is an exception of \<open>recv_cmd\<close> (the client's end of file among them) or a
  destination of \<open>OPEN\<close> that does not decode, nothing else changes, so that no frame is
  sent.
\<close>

theorem termination_closes_peer_only:
  assumes "p = exec evs (AdbDeviceProxy input dev)" "stage p \<noteq> Returned"
    "stage (handle_connection host p) = Returned"
  shows "closing (peer (handle_connection host p))
       \<and> (\<forall>i < length (chans p). chans (handle_connection host p) ! i = chans p ! i)
       \<and> (\<forall>r i. streams p r = Some i \<longrightarrow> streams (handle_connection host p) r = Some i)
       \<and> handle_connection host' (handle_connection host p) = handle_connection host p
       \<and> (\<forall>e r. stage p = Dispatching \<and> recv_cmd (peer p) = (Inl e, r) \<longrightarrow>
            handle_connection host p = p\<lparr>peer := close_conn r, stage := Returned\<rparr>)
       \<and> (\<forall>lid rid data r e.
            stage p = Dispatching
            \<and> recv_cmd (peer p) = (Inr (ascii ''OPEN'', lid, rid, data), r)
            \<and> decode (rstrip_nul data) = Inl e \<longrightarrow>
            handle_connection host p =
              p\<lparr>peer := close_conn r, rcvd := rcvd p @ [(ascii ''OPEN'', lid, rid, data)],
                stage := Returned\<rparr>)"
proof -
  let ?p' = "handle_connection host p"
  have i: "inv p" unfolding assms(1) by (rule inv_reachable)
  then have t: "table_ok p" "ids_ok p" by (simp_all add: inv_def)
  have A: "closing (peer ?p')
       \<and> (\<forall>i < length (chans p). chans ?p' ! i = chans p ! i)
       \<and> (\<forall>r i. streams p r = Some i \<longrightarrow> streams ?p' r = Some i)"
  proof (cases "stage p")
    case Handshake
    obtain e p1 where r: "run_handshake p = (e, p1)" by force
    have f: "chans p1 = chans p" "streams p1 = streams p"
      using r
      by (auto simp: run_handshake_def Let_def proxy_send_cmd_def split: prod.splits sum.splits
          if_splits)
    show ?thesis
      using Handshake r f assms(3)
      by (cases e) (simp_all add: handle_connection_def close_conn_def)
  next
    case Dispatching
    obtain e p1 where r: "run_loop host p = (e, p1)" by force
    show ?thesis
    proof (cases e)
      case None
      then show ?thesis
        using Dispatching r assms(3) run_loop_returns [of host p p1]
        by (simp add: handle_connection_def)
    next
      case (Some x)
      then show ?thesis
        using Dispatching r run_loop_raises [OF _ t, of host x p1]
        by (simp add: handle_connection_def close_conn_def)
    qed
  next
    case (Draining j)
    then show ?thesis
      using assms(3) stage_write_end [of "p\<lparr>stage := Dispatching\<rparr>"]
      by (auto simp: handle_connection_def split: option.splits)
  next
    case (Closing j d)
    obtain e1 p1 where c: "close_end j p = (e1, p1)" by force
    note f = proxy_send_cmd_frame [OF c [unfolded close_end_def]]
    show ?thesis
      using Closing assms(3) c f
      by (cases "wait_closed (chans p ! j)"; cases e1)
        (simp_all add: handle_connection_def close_conn_def)
  next
    case Returned
    then show ?thesis using assms(2) by simp
  qed
  have B: "handle_connection host' ?p' = ?p'"
    using assms(3) by (simp add: handle_connection_def)
  have C: "stage p = Dispatching \<and> recv_cmd (peer p) = (Inl e, r) \<longrightarrow>
            ?p' = p\<lparr>peer := close_conn r, stage := Returned\<rparr>" for e r
    by (simp add: handle_connection_raise)
  have D: "stage p = Dispatching
            \<and> recv_cmd (peer p) = (Inr (ascii ''OPEN'', lid, rid, data), r)
            \<and> decode (rstrip_nul data) = Inl e \<longrightarrow>
            ?p' = p\<lparr>peer := close_conn r, rcvd := rcvd p @ [(ascii ''OPEN'', lid, rid, data)],
                stage := Returned\<rparr>" for lid rid data r e
    by (simp add: handle_connection_def run_loop_def Let_def)
  from A B C D show ?thesis by blast
qed

theorem termination_closes_peer_only_witness:
  "stage (exec [Frame None, Frame (Some (new_conn (ascii ''OKAY'' @ ascii ''OKAY'' @ ascii ''hi''))),
                Pump 0 0, Frame None]
      (AdbDeviceProxy (hello @ frame (ascii ''OPEN'') 7 0 (ascii ''shell:ls'' @ [0]))
         (ascii ''dev1''))) = Returned
   \<and> chans (exec [Frame None,
                  Frame (Some (new_conn (ascii ''OKAY'' @ ascii ''OKAY'' @ ascii ''hi''))),
                  Pump 0 0, Frame None]
      (AdbDeviceProxy (hello @ frame (ascii ''OPEN'') 7 0 (ascii ''shell:ls'' @ [0]))
         (ascii ''dev1'')))
     = chans (exec [Frame None,
                  Frame (Some (new_conn (ascii ''OKAY'' @ ascii ''OKAY'' @ ascii ''hi''))),
                  Pump 0 0]
      (AdbDeviceProxy (hello @ frame (ascii ''OPEN'') 7 0 (ascii ''shell:ls'' @ [0]))
         (ascii ''dev1'')))
   \<and> closing (peer (exec [Frame None,
                  Frame (Some (new_conn (ascii ''OKAY'' @ ascii ''OKAY'' @ ascii ''hi''))),
                  Pump 0 0, Frame None]
      (AdbDeviceProxy (hello @ frame (ascii ''OPEN'') 7 0 (ascii ''shell:ls'' @ [0]))
         (ascii ''dev1''))))"
proof -
  let ?evs = "[Frame None, Frame (Some (new_conn (ascii ''OKAY'' @ ascii ''OKAY'' @ ascii ''hi''))),
               Pump 0 0]"
  let ?init = "AdbDeviceProxy (hello @ frame (ascii ''OPEN'') 7 0 (ascii ''shell:ls'' @ [0]))
         (ascii ''dev1'')"
  let ?p = "exec ?evs ?init"
  have s: "exec (?evs @ [Frame None]) ?init = handle_connection None ?p"
    by (simp only: exec_snoc step.simps)
  have h1: "stage ?p \<noteq> Returned"
    by (simp add: session_reading session_def)
  have h2: "stage (handle_connection None ?p) = Returned"
    by (simp add: s [symmetric] session_terminated)
  have l: "length (chans ?p) = 1" "length (chans (handle_connection None ?p)) = 1"
    by (simp_all add: s [symmetric] session_terminated) (simp add: session_reading)
  note t = termination_closes_peer_only [of ?p ?evs _ "ascii ''dev1''" None, OF refl h1 h2]
  have "chans (handle_connection None ?p) = chans ?p"
    by (rule nth_equalityI) (use t l in simp_all)
  then show ?thesis
    using t h2 by (simp add: s [symmetric])
qed

text \<open>
  A client that opens a stream and then closes its connection: the handler returns and
  closes the writer of the client connection; the stream is still in the table and not
  closed, its sink task is still reading, and no \<open>CLSE\<close> has been sent.
\<close>

theorem termination_leaves_streams_open:
  "(\<lambda>q. (stage q, closing (peer q), out (peer q), streams q 1,
         map (\<lambda>ch. (closed ch, sink_task ch, closing (sock ch))) (chans q)))
     (exec [Frame None, Frame (Some (new_conn (ascii ''OKAY'' @ ascii ''OKAY'' @ ascii ''hi''))),
            Pump 0 0, Frame None]
        (AdbDeviceProxy (hello @ frame (ascii ''OPEN'') 7 0 (ascii ''shell:ls'' @ [0]))
           (ascii ''dev1'')))
   = (Returned, True, [banner (ascii ''dev1''), frame (ascii ''OKAY'') 1 7 []], Some 0,
      [(False, Reading, False)])"
  by (simp add: session_terminated session_def opened_def)









end
